theory Spec2Isabelle
  imports Complex_Main
begin

section \<open>Numbers and failures\<close>

text \<open>
  The library computes with \<^verbatim>\<open>mpfr::mpreal\<close> (arbitrary precision) and \<^verbatim>\<open>double\<close>.
  Both are modelled as \<^typ>\<open>real\<close>, a \<^verbatim>\<open>double\<close> being the real number it denotes:
  arithmetic is exact, and infinities and NaN are outside the model. The conversion
  \<^verbatim>\<open>static_cast<double>\<close> of a singular value, which rounds, is the operation
  \<open>to_double\<close> below. The division of the truncation loop, whose divisor may be zero, is
  written out (\<open>ratio_below\<close>); the bosonic kernel divides by \<open>Lambda\<close>, which is positive
  wherever it is used here.

  Every way in which a call can end without a value is a \<open>failure\<close>:
  \<^item> \<open>runtime_error msg\<close>: a thrown \<^verbatim>\<open>std::runtime_error(msg)\<close>;
  \<^item> \<open>assertion_failed\<close>: a failed \<^verbatim>\<open>assert\<close> (the process aborts), only in a build
    without \<^verbatim>\<open>NDEBUG\<close>;
  \<^item> \<open>out_of_range\<close>: an index past the end of a \<^verbatim>\<open>std::vector\<close>, or of an Eigen
    vector in a build with \<^verbatim>\<open>NDEBUG\<close> (undefined behaviour in C++).
\<close>

datatype failure = runtime_error string | assertion_failed | out_of_range

section \<open>Kernels (kernel.hpp)\<close>

datatype statistics_type = FERMIONIC | BOSONIC

text \<open>\<^verbatim>\<open>fermionic_kernel::operator()\<close>, with \<open>Lambda\<close> the member \<^verbatim>\<open>Lambda_\<close>.\<close>

definition fermionic_kernel :: "real \<Rightarrow> real \<Rightarrow> real \<Rightarrow> real" where
  "fermionic_kernel Lambda x y =
     (let half_Lambda = 0.5 * Lambda; limit = 200 in
      if Lambda * y > limit then exp (- half_Lambda * x * y - half_Lambda * y)
      else if Lambda * y < - limit then exp (- half_Lambda * x * y + half_Lambda * y)
      else exp (- half_Lambda * x * y) / (2 * cosh (half_Lambda * y)))"

text \<open>\<^verbatim>\<open>bosonic_kernel::operator()\<close>.\<close>

definition bosonic_kernel :: "real \<Rightarrow> real \<Rightarrow> real \<Rightarrow> real" where
  "bosonic_kernel Lambda x y =
     (let limit = 200; half_Lambda = 0.5 * Lambda in
      if \<bar>Lambda * y\<bar> < 1 / 10 ^ 30 then exp (- half_Lambda * x * y) / Lambda
      else if Lambda * y > limit then y * exp (- half_Lambda * x * y - half_Lambda * y)
      else if Lambda * y < - limit then - y * exp (- half_Lambda * x * y + half_Lambda * y)
      else y * exp (- half_Lambda * x * y) / (2 * sinh (half_Lambda * y)))"

text \<open>
  A \<^verbatim>\<open>kernel<mpreal>\<close> object is one of the two subclasses; the virtual call
  \<^verbatim>\<open>kernel(x, y)\<close> dispatches on it, as \<^verbatim>\<open>get_statistics()\<close> does. A member
  \<^verbatim>\<open>name_\<close> of the source is the field \<open>m_name\<close> here.
\<close>

record kernel =
  m_Lambda :: real
  get_statistics :: statistics_type

definition kernel_eval :: "kernel \<Rightarrow> real \<Rightarrow> real \<Rightarrow> real" where
  "kernel_eval k x y =
     (case get_statistics k of
        FERMIONIC \<Rightarrow> fermionic_kernel (m_Lambda k) x y
      | BOSONIC \<Rightarrow> bosonic_kernel (m_Lambda k) x y)"

section \<open>Operations that are not part of the modelled sources\<close>

text \<open>
  The sources call code that is not in \<^verbatim>\<open>kernel.hpp\<close> or \<^verbatim>\<open>basis.hpp\<close>. It is
  taken as a parameter, one field each, so that every theorem holds whatever these
  operations compute:
  \<^item> \<open>ndebug\<close>: whether \<^verbatim>\<open>NDEBUG\<close> is defined, so that \<^verbatim>\<open>assert\<close> is compiled out;
  \<^item> \<open>python_checks\<close>: whether \<^verbatim>\<open>python_runtime_check(cond, msg)\<close> (common.hpp) throws
    \<^verbatim>\<open>std::runtime_error(msg)\<close> when \<open>cond\<close> is false, or does nothing;
  \<^item> \<open>to_double\<close>: \<^verbatim>\<open>static_cast<double>\<close> of an \<^verbatim>\<open>mpreal\<close> (mpreal.h), the rounding of
    a real number to a \<^verbatim>\<open>double\<close>;
  \<^item> \<open>compute_value\<close>, \<open>scalar_mult\<close>, \<open>num_sections\<close>: the members
    \<^verbatim>\<open>compute_value(x)\<close>, \<^verbatim>\<open>operator*(double, p)\<close> and \<^verbatim>\<open>num_sections()\<close> of
    \<^verbatim>\<open>piecewise_polynomial\<close> (piecewise_polynomial.hpp), over an abstract type \<open>'pp\<close>;
  \<^item> \<open>compute_approximate_nodes_even_sector\<close> (detail/aux.hpp);
  \<^item> \<open>svd_of_matrix_rep\<close>: \<^verbatim>\<open>Eigen::BDCSVD\<close> with full \<open>U\<close> and \<open>V\<close> of the matrix
    \<^verbatim>\<open>irlib::matrix_rep(kernel, section_edges_x, section_edges_y, num_nodes, Nl)\<close>
    (Gauss-Legendre nodes and Legendre polynomials come from detail/aux.hpp). The
    result is the list of singular triples: entry \<open>i\<close> is \<^verbatim>\<open>singularValues()[i]\<close>,
    \<^verbatim>\<open>matrixU().col(i)\<close>, \<^verbatim>\<open>matrixV().col(i)\<close>, over an abstract vector type \<open>'vec\<close>;
  \<^item> \<open>gen_pp_vector Nl section_edges v vec\<close>: the body of the loop over \<open>v\<close> in the
    lambda \<^verbatim>\<open>gen_pp\<close>, which turns singular vector number \<open>v\<close> into a piecewise
    polynomial (it needs \<^verbatim>\<open>normalized_legendre_p_derivatives\<close> and the constructor of
    \<^verbatim>\<open>piecewise_polynomial\<close>);
  \<^item> \<open>unit_norm vec\<close>: the condition of the assertion in that body, that the squared
    norm of the vector (an Eigen product) is within \<open>1e-8\<close> of 1.
\<close>

record ('vec, 'pp) externals =
  ndebug :: bool
  python_checks :: bool
  to_double :: "real \<Rightarrow> real"
  compute_value :: "'pp \<Rightarrow> real \<Rightarrow> real"
  scalar_mult :: "real \<Rightarrow> 'pp \<Rightarrow> 'pp"
  num_sections :: "'pp \<Rightarrow> int"
  compute_approximate_nodes_even_sector ::
    "(real \<Rightarrow> real \<Rightarrow> real) \<Rightarrow> int \<Rightarrow> real \<Rightarrow> real list \<times> real list"
  svd_of_matrix_rep ::
    "(real \<Rightarrow> real \<Rightarrow> real) \<Rightarrow> real list \<Rightarrow> real list \<Rightarrow> int \<Rightarrow> int
       \<Rightarrow> (real \<times> 'vec \<times> 'vec) list"
  gen_pp_vector :: "int \<Rightarrow> real list \<Rightarrow> nat \<Rightarrow> 'vec \<Rightarrow> 'pp"
  unit_norm :: "'vec \<Rightarrow> bool"

section \<open>Truncation and merge of the two sectors (kernel.hpp, lines 254 to 272)\<close>

text \<open>
  \<^verbatim>\<open>sv.size() == max_dim\<close> compares a \<^verbatim>\<open>size_t\<close> with an \<^verbatim>\<open>int\<close>: the \<^verbatim>\<open>int\<close> is
  converted to the 64 bit unsigned type first.
\<close>

definition to_size_t :: "int \<Rightarrow> nat" where
  "to_size_t n = nat (n mod 2 ^ 64)"

text \<open>
  The test \<^verbatim>\<open>a / s0 < sv_cutoff\<close> on \<^verbatim>\<open>mpreal\<close> values. For \<open>s0 = 0\<close> the quotient
  is not a number when \<open>a = 0\<close> and plus infinity when \<open>a > 0\<close> (the comparison is false),
  and minus infinity when \<open>a < 0\<close> (the comparison is true).
\<close>

definition ratio_below :: "real \<Rightarrow> real \<Rightarrow> real \<Rightarrow> bool" where
  "ratio_below a s0 sv_cutoff = (if s0 = 0 then a < 0 else a / s0 < sv_cutoff)"

text \<open>
  An index past the end of an Eigen vector: Eigen checks the index with an assertion
  of its own, which \<^verbatim>\<open>NDEBUG\<close> compiles out as it does \<^verbatim>\<open>assert\<close>; \<open>nd\<close> says
  whether \<^verbatim>\<open>NDEBUG\<close> is defined.
\<close>

definition eigen_index_failure :: "bool \<Rightarrow> failure" where
  "eigen_index_failure nd = (if nd then out_of_range else assertion_failed)"

text \<open>
  The loop over \<open>i\<close>. The three vectors \<^verbatim>\<open>sv\<close>, \<^verbatim>\<open>Uvec\<close>, \<^verbatim>\<open>Vvec\<close> grow together
  (three \<^verbatim>\<open>push_back\<close> in a row), so they are one list \<open>acc\<close> of triples. The loop
  runs while \<open>i\<close> is below the size of the even sector; the odd sector is read at the
  same index, after the size test (\<^verbatim>\<open>||\<close> evaluates its right side only when the left
  is false). The tests of the loop read the singular values of the decompositions, not
  the entries of \<^verbatim>\<open>sv\<close>, so \<open>acc\<close> keeps each singular value as the decomposition gave it;
  its conversion to \<^verbatim>\<open>double\<close> for \<^verbatim>\<open>sv\<close> is applied where \<open>sv\<close> is read, in
  \<open>generate_ir_basis_functions_impl\<close>.
\<close>

function pick_loop ::
  "bool \<Rightarrow> int \<Rightarrow> real \<Rightarrow> real \<Rightarrow> (real \<times> 'vec \<times> 'vec) list \<Rightarrow> (real \<times> 'vec \<times> 'vec) list
     \<Rightarrow> nat \<Rightarrow> (real \<times> 'vec \<times> 'vec) list \<Rightarrow> failure + (real \<times> 'vec \<times> 'vec) list"
where
  "pick_loop nd max_dim sv_cutoff s0 svd_even svd_odd i acc =
     (if i < length svd_even then
        if length acc = to_size_t max_dim \<or> ratio_below (fst (svd_even ! i)) s0 sv_cutoff
        then Inr acc
        else
          let acc1 = acc @ [svd_even ! i] in
          if length acc1 = to_size_t max_dim then Inr acc1
          else if \<not> i < length svd_odd then Inl (eigen_index_failure nd)
          else if ratio_below (fst (svd_odd ! i)) s0 sv_cutoff then Inr acc1
          else pick_loop nd max_dim sv_cutoff s0 svd_even svd_odd (Suc i)
                 (acc1 @ [svd_odd ! i])
      else Inr acc)"
  by pat_completeness auto
termination
  by (relation "measure (\<lambda>(nd, max_dim, sv_cutoff, s0, svd_even, svd_odd, i, acc).
        length svd_even - i)") auto

text \<open>
  Lines 255 to 271: \<^verbatim>\<open>s0 = svd_even.singularValues()[0]\<close> is read before the loop,
  also when the decomposition is empty.
\<close>

definition pick_singular_triples ::
  "bool \<Rightarrow> int \<Rightarrow> real \<Rightarrow> (real \<times> 'vec \<times> 'vec) list \<Rightarrow> (real \<times> 'vec \<times> 'vec) list
     \<Rightarrow> failure + (real \<times> 'vec \<times> 'vec) list"
where
  "pick_singular_triples nd max_dim sv_cutoff svd_even svd_odd =
     (case svd_even of
        [] \<Rightarrow> Inl (eigen_index_failure nd)
      | t # _ \<Rightarrow> pick_loop nd max_dim sv_cutoff (fst t) svd_even svd_odd 0 [])"

section \<open>The check of the order (kernel.hpp, lines 274 to 279)\<close>

text \<open>
  \<^verbatim>\<open>for (int l=0; l<sv.size()-1; ++l)\<close>: the bound \<^verbatim>\<open>sv.size()-1\<close> is computed in
  \<^verbatim>\<open>size_t\<close>, so it is \<open>2^64 - 1\<close> for an empty \<open>sv\<close>, and \<open>l\<close> is converted to
  \<^verbatim>\<open>size_t\<close> for the comparison. The body reads \<open>sv[l]\<close> and \<open>sv[l+1]\<close>; a read past
  the end ends the run here, long before \<open>l\<close> could leave the range of \<^verbatim>\<open>int\<close>.
\<close>

definition check_bound :: "real list \<Rightarrow> nat" where
  "check_bound sv = nat ((int (length sv) - 1) mod 2 ^ 64)"

definition not_decreasing_message :: string where
  "not_decreasing_message =
     ''Singular values are not in decreasing order. This may be due to numerical round erros. You may ask for fewer basis functions!''"

function check_decreasing :: "real list \<Rightarrow> nat \<Rightarrow> failure + unit" where
  "check_decreasing sv l =
     (if l < check_bound sv then
        if \<not> Suc l < length sv then Inl out_of_range
        else if sv ! l < sv ! (l + 1) then Inl (runtime_error not_decreasing_message)
        else check_decreasing sv (Suc l)
      else Inr ())"
  by pat_completeness auto
termination
  by (relation "measure (\<lambda>(sv, l). check_bound sv - l)") auto

section \<open>Basis functions and their signs (kernel.hpp, lines 290 to 340)\<close>

text \<open>
  The lambda \<^verbatim>\<open>gen_pp\<close>: one piecewise polynomial per vector, in order. Its two
  assertions are written out. The first,
  \<^verbatim>\<open>section_edges_pp.size()-1 == 2*(section_edges.size()-1)\<close>, compares in \<^verbatim>\<open>size_t\<close>
  a vector of \<open>1 + 2 (n - 1)\<close> edges (of one edge for \<open>n = 0\<close>) with \<open>n\<close> edges, so it
  fails for an empty \<open>section_edges\<close> only. The second is the one on the norm of each
  vector. With an empty \<open>section_edges\<close> and a vector to convert, the loop over the
  sections runs with the wrapped bound \<^verbatim>\<open>section_edges.size()-1\<close> and reads
  \<open>section_edges\<close> out of range.
\<close>

definition gen_pp ::
  "('vec, 'pp) externals \<Rightarrow> int \<Rightarrow> real list \<Rightarrow> 'vec list \<Rightarrow> failure + 'pp list" where
  "gen_pp ext Nl section_edges vectors =
     (if \<not> ndebug ext \<and> section_edges = [] then Inl assertion_failed
      else if \<not> ndebug ext \<and> \<not> list_all (unit_norm ext) vectors then Inl assertion_failed
      else if section_edges = [] \<and> vectors \<noteq> [] then Inl out_of_range
      else Inr (map (\<lambda>v. gen_pp_vector ext Nl section_edges v (vectors ! v))
                  [0 ..< length vectors]))"

text \<open>
  Lines 335 to 340: the loop runs over the indices of \<^verbatim>\<open>u_basis_pp\<close> and writes
  \<^verbatim>\<open>v_basis_pp\<close> at the same index.
\<close>

function sign_loop ::
  "('vec, 'pp) externals \<Rightarrow> nat \<Rightarrow> 'pp list \<Rightarrow> 'pp list \<Rightarrow> failure + ('pp list \<times> 'pp list)"
where
  "sign_loop ext i u_basis_pp v_basis_pp =
     (if i < length u_basis_pp then
        if compute_value ext (u_basis_pp ! i) 1 < 0 then
          if \<not> i < length v_basis_pp then Inl out_of_range
          else sign_loop ext (Suc i)
                 (u_basis_pp [i := scalar_mult ext (- 1) (u_basis_pp ! i)])
                 (v_basis_pp [i := scalar_mult ext (- 1) (v_basis_pp ! i)])
        else sign_loop ext (Suc i) u_basis_pp v_basis_pp
      else Inr (u_basis_pp, v_basis_pp))"
  by pat_completeness auto
termination
  by (relation "measure (\<lambda>(ext, i, u_basis_pp, v_basis_pp). length u_basis_pp - i)") auto

section \<open>Construction (kernel.hpp, lines 228 to 390)\<close>

text \<open>
  \<^verbatim>\<open>generate_ir_basis_functions_impl\<close>. The two lambdas \<^verbatim>\<open>kernel_even\<close> and
  \<^verbatim>\<open>kernel_odd\<close> and the two decompositions are definitions of their own. The result
  is the tuple \<open>(sv, u_basis_pp, v_basis_pp)\<close>. \<^verbatim>\<open>sv\<close> is a vector of \<^verbatim>\<open>double\<close>: each
  singular value was converted when it was pushed (lines 262 and 268), and the check
  of the order reads the converted values. \<^verbatim>\<open>assert(sv.size() <= max_dim)\<close> compares in
  \<^verbatim>\<open>size_t\<close>.
\<close>

definition kernel_even :: "kernel \<Rightarrow> real \<Rightarrow> real \<Rightarrow> real" where
  "kernel_even knl x y = kernel_eval knl x y + kernel_eval knl x (- y)"

definition kernel_odd :: "kernel \<Rightarrow> real \<Rightarrow> real \<Rightarrow> real" where
  "kernel_odd knl x y = kernel_eval knl x y - kernel_eval knl x (- y)"

definition svd_even ::
  "('vec, 'pp) externals \<Rightarrow> kernel \<Rightarrow> int \<Rightarrow> int \<Rightarrow> real list \<Rightarrow> real list
     \<Rightarrow> (real \<times> 'vec \<times> 'vec) list" where
  "svd_even ext knl Nl num_nodes_gauss_legendre section_edges_x section_edges_y =
     svd_of_matrix_rep ext (kernel_even knl) section_edges_x section_edges_y
       num_nodes_gauss_legendre Nl"

definition svd_odd ::
  "('vec, 'pp) externals \<Rightarrow> kernel \<Rightarrow> int \<Rightarrow> int \<Rightarrow> real list \<Rightarrow> real list
     \<Rightarrow> (real \<times> 'vec \<times> 'vec) list" where
  "svd_odd ext knl Nl num_nodes_gauss_legendre section_edges_x section_edges_y =
     svd_of_matrix_rep ext (kernel_odd knl) section_edges_x section_edges_y
       num_nodes_gauss_legendre Nl"

definition generate_ir_basis_functions_impl ::
  "('vec, 'pp) externals \<Rightarrow> kernel \<Rightarrow> int \<Rightarrow> real \<Rightarrow> int \<Rightarrow> int \<Rightarrow> real list \<Rightarrow> real list
     \<Rightarrow> failure + (real list \<times> 'pp list \<times> 'pp list)"
where
  "generate_ir_basis_functions_impl ext knl max_dim sv_cutoff Nl num_nodes_gauss_legendre
       section_edges_x section_edges_y =
     (case pick_singular_triples (ndebug ext) max_dim sv_cutoff
             (svd_even ext knl Nl num_nodes_gauss_legendre section_edges_x section_edges_y)
             (svd_odd ext knl Nl num_nodes_gauss_legendre section_edges_x section_edges_y) of
        Inl e \<Rightarrow> Inl e
      | Inr picked \<Rightarrow>
          let sv = map (\<lambda>t. to_double ext (fst t)) picked;
              Uvec = map (\<lambda>t. fst (snd t)) picked;
              Vvec = map (\<lambda>t. snd (snd t)) picked
          in if \<not> ndebug ext \<and> \<not> length sv \<le> to_size_t max_dim then Inl assertion_failed
             else (case check_decreasing sv 0 of
               Inl e \<Rightarrow> Inl e
             | Inr _ \<Rightarrow>
                 (case gen_pp ext Nl section_edges_x Uvec of
                    Inl e \<Rightarrow> Inl e
                  | Inr u_basis_pp \<Rightarrow>
                      (case gen_pp ext Nl section_edges_y Vvec of
                         Inl e \<Rightarrow> Inl e
                       | Inr v_basis_pp \<Rightarrow>
                           (case sign_loop ext 0 u_basis_pp v_basis_pp of
                              Inl e \<Rightarrow> Inl e
                            | Inr (u, v) \<Rightarrow> Inr (sv, u, v))))))"

text \<open>
  \<^verbatim>\<open>generate_ir_basis_functions\<close>. Its first block raises the default precision of
  \<^verbatim>\<open>mpreal\<close> to \<^verbatim>\<open>static_cast<int>(3.33333*(std::log10(1/sv_cutoff) + 15))\<close> bits when
  that is above 100 and above the current one. The block has no test on
  \<^verbatim>\<open>sv_cutoff\<close> and no exit, and on exact reals the precision has no effect, so it
  has no counterpart here. No statement of the function compares \<^verbatim>\<open>max_dim\<close>,
  \<^verbatim>\<open>sv_cutoff\<close> or \<^verbatim>\<open>Nl\<close> with anything.
\<close>

definition gen_section_edges :: "real list \<Rightarrow> real list" where
  "gen_section_edges nodes = [0] @ nodes @ [1]"

definition generate_ir_basis_functions ::
  "('vec, 'pp) externals \<Rightarrow> kernel \<Rightarrow> int \<Rightarrow> real \<Rightarrow> int \<Rightarrow> int
     \<Rightarrow> failure + (real list \<times> 'pp list \<times> 'pp list)"
where
  "generate_ir_basis_functions ext knl max_dim sv_cutoff Nl num_nodes_gauss_legendre =
     (case compute_approximate_nodes_even_sector ext (kernel_eval knl) 250 (1 / 10 ^ 12) of
        (nodes_x, nodes_y) \<Rightarrow>
          let section_edges_x = gen_section_edges nodes_x;
              section_edges_y = gen_section_edges nodes_y
          in generate_ir_basis_functions_impl ext knl max_dim sv_cutoff Nl
               num_nodes_gauss_legendre section_edges_x section_edges_y)"

section \<open>The basis object (basis.hpp)\<close>

record 'pp ir_basis_set =
  m_statistics :: statistics_type
  m_sv :: "real list"
  m_u_basis :: "'pp list"
  m_v_basis :: "'pp list"

text \<open>
  The constructor of \<^verbatim>\<open>ir_basis_set\<close>; \<^verbatim>\<open>generate_ir_basis_functions\<close> is called with
  its default number of Gauss-Legendre nodes, 12.
\<close>

definition ir_basis_set_ctor ::
  "('vec, 'pp) externals \<Rightarrow> kernel \<Rightarrow> int \<Rightarrow> real \<Rightarrow> int \<Rightarrow> failure + 'pp ir_basis_set"
where
  "ir_basis_set_ctor ext knl max_dim cutoff Nl =
     (case generate_ir_basis_functions ext knl max_dim cutoff Nl 12 of
        Inl e \<Rightarrow> Inl e
      | Inr (sv, u, v) \<Rightarrow>
          if \<not> ndebug ext \<and> \<not> length u > 0 then Inl assertion_failed
          else if \<not> ndebug ext \<and> \<not> num_sections ext (u ! 0) > 0 then Inl assertion_failed
          else Inr \<lparr>m_statistics = get_statistics knl, m_sv = sv, m_u_basis = u,
                    m_v_basis = v\<rparr>)"

text \<open>\<^verbatim>\<open>basis_f\<close> and \<^verbatim>\<open>basis_b\<close> construct the kernel from \<open>Lambda\<close>.\<close>

definition basis_f ::
  "('vec, 'pp) externals \<Rightarrow> real \<Rightarrow> int \<Rightarrow> real \<Rightarrow> int \<Rightarrow> failure + 'pp ir_basis_set" where
  "basis_f ext Lambda max_dim cutoff Nl =
     ir_basis_set_ctor ext \<lparr>m_Lambda = Lambda, get_statistics = FERMIONIC\<rparr> max_dim cutoff Nl"

definition basis_b ::
  "('vec, 'pp) externals \<Rightarrow> real \<Rightarrow> int \<Rightarrow> real \<Rightarrow> int \<Rightarrow> failure + 'pp ir_basis_set" where
  "basis_b ext Lambda max_dim cutoff Nl =
     ir_basis_set_ctor ext \<lparr>m_Lambda = Lambda, get_statistics = BOSONIC\<rparr> max_dim cutoff Nl"

definition dim :: "'pp ir_basis_set \<Rightarrow> int" where
  "dim b = int (length (m_u_basis b))"

text \<open>
  \<^verbatim>\<open>ulx(int l, const mpreal& x)\<close> and \<^verbatim>\<open>vly(int l, const mpreal& y)\<close>, statement by
  statement. The overloads on \<^verbatim>\<open>double\<close> convert the argument and call these.
\<close>

definition ulx :: "('vec, 'pp) externals \<Rightarrow> 'pp ir_basis_set \<Rightarrow> int \<Rightarrow> real \<Rightarrow> failure + real" where
  "ulx ext b l x =
     (if \<not> ndebug ext \<and> \<not> (x \<ge> - 1 \<and> x \<le> 1) then Inl assertion_failed
      else if \<not> ndebug ext \<and> \<not> (l \<ge> 0 \<and> l < dim b) then Inl assertion_failed
      else if python_checks ext \<and> \<not> (l \<ge> 0 \<and> l < dim b)
        then Inl (runtime_error ''Index l is out of range.'')
      else if python_checks ext \<and> \<not> (x \<ge> - 1 \<and> x \<le> 1)
        then Inl (runtime_error ''x must be in [-1,1].'')
      else if l < 0 \<or> l \<ge> dim b then Inl (runtime_error ''Invalid index of basis function!'')
      else if x < - 1 \<or> x > 1 then Inl (runtime_error ''Invalid value of x!'')
      else if x \<ge> 0 then Inr (compute_value ext (m_u_basis b ! nat l) x)
      else Inr (compute_value ext (m_u_basis b ! nat l) (- x)
                  * (if l mod 2 = 0 then 1 else - 1)))"

definition vly :: "('vec, 'pp) externals \<Rightarrow> 'pp ir_basis_set \<Rightarrow> int \<Rightarrow> real \<Rightarrow> failure + real" where
  "vly ext b l y =
     (if \<not> ndebug ext \<and> \<not> (y \<ge> - 1 \<and> y \<le> 1) then Inl assertion_failed
      else if \<not> ndebug ext \<and> \<not> (l \<ge> 0 \<and> l < dim b) then Inl assertion_failed
      else if python_checks ext \<and> \<not> (l \<ge> 0 \<and> l < dim b)
        then Inl (runtime_error ''Index l is out of range.'')
      else if python_checks ext \<and> \<not> (y \<ge> - 1 \<and> y \<le> 1)
        then Inl (runtime_error ''y must be in [-1,1].'')
      else if l < 0 \<or> l \<ge> dim b then Inl (runtime_error ''Invalid index of basis function!'')
      else if y < - 1 \<or> y > 1 then Inl (runtime_error ''Invalid value of y!'')
      else if y \<ge> 0 then Inr (compute_value ext (m_v_basis b ! nat l) y)
      else Inr (compute_value ext (m_v_basis b ! nat l) (- y)
                  * (if l mod 2 = 0 then 1 else - 1)))"

section \<open>The words of the specification\<close>

text \<open>
  The merged sequence of the two sectors: the even triple \<open>i\<close> at index \<open>2 i\<close>, the odd
  triple \<open>i\<close> at index \<open>2 i + 1\<close>.
\<close>

fun interleave :: "'a list \<Rightarrow> 'a list \<Rightarrow> 'a list" where
  "interleave (x # xs) (y # ys) = x # y # interleave xs ys"
| "interleave xs ys = []"

text \<open>
  The truncation and merge as the specification words it (section 4.4): in lock-step
  over both sequences, stop when the count equals \<open>max_dim\<close> or the singular value
  divided by the leading even one is below the cutoff; otherwise emit. Here the count
  is compared with \<open>max_dim\<close> as integers and the quotient is the quotient of reals.
\<close>

fun lockstep_spec ::
  "int \<Rightarrow> real \<Rightarrow> real \<Rightarrow> (real \<times> 'vec \<times> 'vec) list \<Rightarrow> (real \<times> 'vec \<times> 'vec) list
     \<Rightarrow> (real \<times> 'vec \<times> 'vec) list \<Rightarrow> (real \<times> 'vec \<times> 'vec) list"
where
  "lockstep_spec max_dim cutoff sigma0 (e # es) (d # ds) emitted =
     (if int (length emitted) = max_dim \<or> fst e / sigma0 < cutoff then emitted
      else if int (length (emitted @ [e])) = max_dim \<or> fst d / sigma0 < cutoff
        then emitted @ [e]
      else lockstep_spec max_dim cutoff sigma0 es ds (emitted @ [e, d]))"
| "lockstep_spec max_dim cutoff sigma0 es ds emitted = emitted"

text \<open>
  The error kinds of the specification (section 7). The code throws
  \<^verbatim>\<open>std::runtime_error\<close> only; a kind is the set of messages that report it.
\<close>

definition is_RangeError :: "failure \<Rightarrow> bool" where
  "is_RangeError e =
     (e = runtime_error ''Index l is out of range.''
      \<or> e = runtime_error ''Invalid index of basis function!'')"

definition is_DomainError :: "failure \<Rightarrow> bool" where
  "is_DomainError e =
     (e = runtime_error ''x must be in [-1,1].'' \<or> e = runtime_error ''Invalid value of x!''
      \<or> e = runtime_error ''y must be in [-1,1].'' \<or> e = runtime_error ''Invalid value of y!'')"

section \<open>A concrete instance of the external operations\<close>

text \<open>
  To run the model on explicit inputs: a piecewise polynomial with one section is its
  list of coefficients, a singular vector is turned into the polynomial with these
  coefficients, and the decomposition returns the given triples, \<open>odds\<close> for a kernel
  that vanishes at the origin (as \<open>kernel_odd\<close> does) and \<open>evens\<close> otherwise. The
  conversion to \<^verbatim>\<open>double\<close> rounds to the nearest number with ten binary digits after
  the point (\<open>round_to_grid\<close>): a format small enough to show the effect of rounding on
  short inputs.
\<close>

definition round_to_grid :: "real \<Rightarrow> real" where
  "round_to_grid x = of_int \<lfloor>x * 1024 + 1 / 2\<rfloor> / 1024"

definition poly_value :: "real list \<Rightarrow> real \<Rightarrow> real" where
  "poly_value p x = foldr (\<lambda>c r. c + x * r) p 0"

definition sample_externals ::
  "bool \<Rightarrow> bool \<Rightarrow> (real \<times> real list \<times> real list) list
     \<Rightarrow> (real \<times> real list \<times> real list) list \<Rightarrow> (real list, real list) externals"
where
  "sample_externals nd py evens odds =
     \<lparr>ndebug = nd, python_checks = py,
      to_double = round_to_grid,
      compute_value = poly_value,
      scalar_mult = (\<lambda>c p. map (\<lambda>a. c * a) p),
      num_sections = (\<lambda>p. 1),
      compute_approximate_nodes_even_sector = (\<lambda>k n tol. ([1 / 2], [1 / 2])),
      svd_of_matrix_rep = (\<lambda>k ex ey n Nl. if k 0 0 = 0 then odds else evens),
      gen_pp_vector = (\<lambda>Nl edges v vec. vec),
      unit_norm = (\<lambda>vec. \<bar>sum_list (map (\<lambda>a. a * a) vec) - 1\<bar> < 1 / 10 ^ 8)\<rparr>"

definition sample_even :: "(real \<times> real list \<times> real list) list" where
  "sample_even = [(1, [1], [1]), (1 / 2, [0, 0, 1], [0, 0, 1])]"

definition sample_odd :: "(real \<times> real list \<times> real list) list" where
  "sample_odd = [(3 / 4, [3 / 5, - (4 / 5)], [0, 1]), (1 / 4, [0, 0, 0, 1], [0, 0, 0, 1])]"

definition sample_kernel :: kernel where
  "sample_kernel = \<lparr>m_Lambda = 100, get_statistics = FERMIONIC\<rparr>"

definition sample_basis :: "real list ir_basis_set" where
  "sample_basis =
     \<lparr>m_statistics = FERMIONIC, m_sv = [1, 3 / 4, 1 / 2],
      m_u_basis = [[1], [- (3 / 5), 4 / 5], [0, 0, 1]],
      m_v_basis = [[1], [0, - 1], [0, 0, 1]]\<rparr>"

text \<open>Triples with the given singular values and constant vectors.\<close>

definition sample_triples :: "real list \<Rightarrow> (real \<times> real list \<times> real list) list" where
  "sample_triples svs = map (\<lambda>s. (s, [1], [1])) svs"

section \<open>Facts about the loops\<close>

declare pick_loop.simps [simp del] check_decreasing.simps [simp del] sign_loop.simps [simp del]


lemma to_size_t_less: "to_size_t n < 2 ^ 64"
  by (simp add: to_size_t_def nat_less_iff)

lemma to_size_t_nonneg: "0 \<le> n \<Longrightarrow> n < 2 ^ 64 \<Longrightarrow> to_size_t n = nat n"
  by (simp add: to_size_t_def)

lemma interleave_drop:
  "i < length xs \<Longrightarrow> i < length ys \<Longrightarrow>
   interleave (drop i xs) (drop i ys) = xs ! i # ys ! i # interleave (drop (Suc i) xs) (drop (Suc i) ys)"
  by (simp add: Cons_nth_drop_Suc [symmetric])

lemma interleave_drop_all: "length xs \<le> i \<Longrightarrow> interleave (drop i xs) ys = []"
  by simp

lemma pick_loop_closed:
  assumes "length Od = length E" and "length acc \<le> to_size_t max_dim"
  shows "pick_loop nd max_dim sv_cutoff s0 E Od i acc =
     Inr (acc @ take (to_size_t max_dim - length acc)
            (takeWhile (\<lambda>t. \<not> ratio_below (fst t) s0 sv_cutoff)
               (interleave (drop i E) (drop i Od))))"
  using assms
proof (induction nd max_dim sv_cutoff s0 E Od i acc rule: pick_loop.induct)
  case (1 nd max_dim sv_cutoff s0 E Od i acc)
  show ?case
  proof (cases "i < length E")
    case False
    then show ?thesis by (subst pick_loop.simps) simp
  next
    case True
    note lt = True
    with "1.prems" have lt': "i < length Od" by simp
    let ?M = "to_size_t max_dim"
    show ?thesis
    proof (cases "length acc = ?M \<or> ratio_below (fst (E ! i)) s0 sv_cutoff")
      case True
      then show ?thesis using lt lt'
        by (subst pick_loop.simps) (auto simp: interleave_drop)
    next
      case False
      note c1 = False
      show ?thesis
      proof (cases "Suc (length acc) = ?M \<or> ratio_below (fst (Od ! i)) s0 sv_cutoff")
        case True
        then show ?thesis using lt lt' c1 "1.prems"
          by (subst pick_loop.simps) (auto simp: interleave_drop Let_def take_Cons')
      next
        case False
        have "pick_loop nd max_dim sv_cutoff s0 E Od i acc =
              pick_loop nd max_dim sv_cutoff s0 E Od (Suc i) ((acc @ [E ! i]) @ [Od ! i])"
          using lt lt' c1 False by (subst pick_loop.simps) (simp add: Let_def)
        also have "\<dots> = Inr (((acc @ [E ! i]) @ [Od ! i]) @ take (?M - length ((acc @ [E ! i]) @ [Od ! i]))
            (takeWhile (\<lambda>t. \<not> ratio_below (fst t) s0 sv_cutoff)
               (interleave (drop (Suc i) E) (drop (Suc i) Od))))"
          using lt lt' c1 False "1.prems"
          by (intro "1.IH") (auto simp: Let_def)
        also have "\<dots> = Inr (acc @ take (?M - length acc)
            (takeWhile (\<lambda>t. \<not> ratio_below (fst t) s0 sv_cutoff)
               (interleave (drop i E) (drop i Od))))"
          using lt lt' c1 False "1.prems"
          by (auto simp: interleave_drop take_Cons' Suc_diff_Suc)
        finally show ?thesis .
      qed
    qed
  qed
qed


lemma check_bound_empty: "check_bound [] = 2 ^ 64 - 1"
  by (simp add: check_bound_def)

lemma check_bound_nonempty:
  assumes "sv \<noteq> []" and "length sv < 2 ^ 64"
  shows "check_bound sv = length sv - 1"
proof -
  have "0 \<le> int (length sv) - 1" using assms(1) by (cases sv) simp_all
  moreover have "int (length sv) - 1 < 2 ^ 64" using assms(2) by simp
  ultimately have "(int (length sv) - 1) mod 2 ^ 64 = int (length sv) - 1"
    by (rule mod_pos_pos_trivial)
  then show ?thesis by (simp add: check_bound_def nat_diff_distrib')
qed

lemma check_decreasing_empty: "check_decreasing [] 0 = Inl out_of_range"
  by (subst check_decreasing.simps) (simp add: check_bound_empty)

lemma check_decreasing_nonempty:
  assumes "sv \<noteq> []" and "length sv < 2 ^ 64"
  shows "check_decreasing sv l =
     (if \<exists>k\<ge>l. Suc k < length sv \<and> sv ! k < sv ! Suc k
      then Inl (runtime_error not_decreasing_message) else Inr ())"
  using assms
proof (induction sv l rule: check_decreasing.induct)
  case (1 sv l)
  have b: "check_bound sv = length sv - 1" using "1.prems" by (rule check_bound_nonempty)
  show ?case
  proof (cases "Suc l < length sv")
    case False
    then have "check_decreasing sv l = Inr ()"
      using b by (subst check_decreasing.simps) auto
    moreover have "\<not> (\<exists>k\<ge>l. Suc k < length sv \<and> sv ! k < sv ! Suc k)"
      using False by auto
    ultimately show ?thesis by simp
  next
    case True
    then have inb: "l < check_bound sv" using b by simp
    show ?thesis
    proof (cases "sv ! l < sv ! Suc l")
      case True
      then have "check_decreasing sv l = Inl (runtime_error not_decreasing_message)"
        using inb \<open>Suc l < length sv\<close> by (subst check_decreasing.simps) simp
      moreover have "\<exists>k\<ge>l. Suc k < length sv \<and> sv ! k < sv ! Suc k"
        using True \<open>Suc l < length sv\<close> by blast
      ultimately show ?thesis by simp
    next
      case False
      then have "check_decreasing sv l = check_decreasing sv (Suc l)"
        using inb \<open>Suc l < length sv\<close> by (subst check_decreasing.simps) simp
      also have "\<dots> = (if \<exists>k\<ge>Suc l. Suc k < length sv \<and> sv ! k < sv ! Suc k
          then Inl (runtime_error not_decreasing_message) else Inr ())"
        using inb \<open>Suc l < length sv\<close> False "1.prems" by (intro "1.IH") simp_all
      also have "(\<exists>k\<ge>Suc l. Suc k < length sv \<and> sv ! k < sv ! Suc k)
          \<longleftrightarrow> (\<exists>k\<ge>l. Suc k < length sv \<and> sv ! k < sv ! Suc k)"
        using False by (metis Suc_leD Suc_leI le_neq_implies_less)
      finally show ?thesis .
    qed
  qed
qed


lemma sign_loop_closed:
  assumes "length v = length u"
  shows "sign_loop ext i u v =
     Inr (map (\<lambda>j. if i \<le> j \<and> compute_value ext (u ! j) 1 < 0
                    then scalar_mult ext (- 1) (u ! j) else u ! j) [0 ..< length u],
          map (\<lambda>j. if i \<le> j \<and> compute_value ext (u ! j) 1 < 0
                    then scalar_mult ext (- 1) (v ! j) else v ! j) [0 ..< length u])"
  using assms
proof (induction ext i u v rule: sign_loop.induct)
  case (1 ext i u v)
  show ?case
  proof (cases "i < length u")
    case False
    then have "sign_loop ext i u v = Inr (u, v)"
      by (subst sign_loop.simps) simp
    moreover have "map (\<lambda>j. if i \<le> j \<and> compute_value ext (u ! j) 1 < 0
                    then scalar_mult ext (- 1) (u ! j) else u ! j) [0 ..< length u] = u"
      using False by (intro nth_equalityI) auto
    moreover have "map (\<lambda>j. if i \<le> j \<and> compute_value ext (u ! j) 1 < 0
                    then scalar_mult ext (- 1) (v ! j) else v ! j) [0 ..< length u] = v"
      using False "1.prems" by (intro nth_equalityI) auto
    ultimately show ?thesis by simp
  next
    case True
    note lt = True
    show ?thesis
    proof (cases "compute_value ext (u ! i) 1 < 0")
      case True
      let ?u = "u [i := scalar_mult ext (- 1) (u ! i)]"
      let ?v = "v [i := scalar_mult ext (- 1) (v ! i)]"
      have "sign_loop ext i u v = sign_loop ext (Suc i) ?u ?v"
        using lt True "1.prems" by (subst sign_loop.simps) simp
      also have "\<dots> = Inr (map (\<lambda>j. if Suc i \<le> j \<and> compute_value ext (?u ! j) 1 < 0
                    then scalar_mult ext (- 1) (?u ! j) else ?u ! j) [0 ..< length ?u],
          map (\<lambda>j. if Suc i \<le> j \<and> compute_value ext (?u ! j) 1 < 0
                    then scalar_mult ext (- 1) (?v ! j) else ?v ! j) [0 ..< length ?u])"
        using lt True "1.prems" by (intro "1.IH"(1)) simp_all
      also have "map (\<lambda>j. if Suc i \<le> j \<and> compute_value ext (?u ! j) 1 < 0
                    then scalar_mult ext (- 1) (?u ! j) else ?u ! j) [0 ..< length ?u]
          = map (\<lambda>j. if i \<le> j \<and> compute_value ext (u ! j) 1 < 0
                    then scalar_mult ext (- 1) (u ! j) else u ! j) [0 ..< length u]"
        using lt True by (intro nth_equalityI) (auto simp: nth_list_update)
      also have "map (\<lambda>j. if Suc i \<le> j \<and> compute_value ext (?u ! j) 1 < 0
                    then scalar_mult ext (- 1) (?v ! j) else ?v ! j) [0 ..< length ?u]
          = map (\<lambda>j. if i \<le> j \<and> compute_value ext (u ! j) 1 < 0
                    then scalar_mult ext (- 1) (v ! j) else v ! j) [0 ..< length u]"
        using lt True "1.prems" by (intro nth_equalityI) (auto simp: nth_list_update)
      finally show ?thesis .
    next
      case False
      have "sign_loop ext i u v = sign_loop ext (Suc i) u v"
        using lt False by (subst sign_loop.simps) simp
      also have "\<dots> = Inr (map (\<lambda>j. if Suc i \<le> j \<and> compute_value ext (u ! j) 1 < 0
                    then scalar_mult ext (- 1) (u ! j) else u ! j) [0 ..< length u],
          map (\<lambda>j. if Suc i \<le> j \<and> compute_value ext (u ! j) 1 < 0
                    then scalar_mult ext (- 1) (v ! j) else v ! j) [0 ..< length u])"
        using lt False "1.prems" by (intro "1.IH"(2)) simp_all
      also have "map (\<lambda>j. if Suc i \<le> j \<and> compute_value ext (u ! j) 1 < 0
                    then scalar_mult ext (- 1) (u ! j) else u ! j) [0 ..< length u]
          = map (\<lambda>j. if i \<le> j \<and> compute_value ext (u ! j) 1 < 0
                    then scalar_mult ext (- 1) (u ! j) else u ! j) [0 ..< length u]"
        using lt False by (intro nth_equalityI) (auto simp: Suc_le_eq le_less)
      also have "map (\<lambda>j. if Suc i \<le> j \<and> compute_value ext (u ! j) 1 < 0
                    then scalar_mult ext (- 1) (v ! j) else v ! j) [0 ..< length u]
          = map (\<lambda>j. if i \<le> j \<and> compute_value ext (u ! j) 1 < 0
                    then scalar_mult ext (- 1) (v ! j) else v ! j) [0 ..< length u]"
        using lt False by (intro nth_equalityI) (auto simp: Suc_le_eq le_less)
      finally show ?thesis .
    qed
  qed
qed

lemma pick_loop_length:
  assumes "pick_loop nd max_dim sv_cutoff s0 E Od i acc = Inr r"
    and "length acc \<le> to_size_t max_dim"
  shows "length r \<le> to_size_t max_dim"
  using assms
proof (induction nd max_dim sv_cutoff s0 E Od i acc rule: pick_loop.induct)
  case (1 nd max_dim sv_cutoff s0 E Od i acc)
  let ?M = "to_size_t max_dim"
  show ?case
  proof (cases "i < length E \<and> length acc \<noteq> ?M \<and> \<not> ratio_below (fst (E ! i)) s0 sv_cutoff
      \<and> Suc (length acc) \<noteq> ?M \<and> i < length Od \<and> \<not> ratio_below (fst (Od ! i)) s0 sv_cutoff")
    case True
    then have "pick_loop nd max_dim sv_cutoff s0 E Od i acc
        = pick_loop nd max_dim sv_cutoff s0 E Od (Suc i) ((acc @ [E ! i]) @ [Od ! i])"
      by (subst pick_loop.simps) (simp add: Let_def)
    with "1.prems"(1)
    have "pick_loop nd max_dim sv_cutoff s0 E Od (Suc i) ((acc @ [E ! i]) @ [Od ! i]) = Inr r"
      by simp
    moreover have "length ((acc @ [E ! i]) @ [Od ! i]) \<le> ?M"
      using True "1.prems"(2) by simp
    ultimately show ?thesis using True by (intro "1.IH") (auto simp: Let_def)
  next
    case False
    then have "r = acc \<or> (r = acc @ [E ! i] \<and> length acc \<noteq> ?M)"
      using "1.prems"(1)
      by (subst (asm) pick_loop.simps) (auto simp: Let_def split: if_splits)
    then show ?thesis using "1.prems"(2) by auto
  qed
qed

lemma length_interleave: "length xs = length ys \<Longrightarrow> length (interleave xs ys) = 2 * length xs"
  by (induction xs ys rule: interleave.induct) auto

lemma interleave_nth:
  "length xs = length ys \<Longrightarrow> i < length xs \<Longrightarrow>
     interleave xs ys ! (2 * i) = xs ! i \<and> interleave xs ys ! (2 * i + 1) = ys ! i"
proof (induction xs ys arbitrary: i rule: interleave.induct)
  case (1 x xs y ys)
  then show ?case by (cases i) auto
qed auto

lemma pick_singular_triples_closed:
  assumes "length Od = length E" and "E \<noteq> []"
  shows "pick_singular_triples nd max_dim sv_cutoff E Od =
     Inr (take (to_size_t max_dim)
            (takeWhile (\<lambda>t. \<not> ratio_below (fst t) (fst (hd E)) sv_cutoff)
               (interleave E Od)))"
proof -
  from assms(2) obtain t ts where e: "E = t # ts" by (cases E) auto
  have "pick_singular_triples nd max_dim sv_cutoff E Od
      = pick_loop nd max_dim sv_cutoff (fst t) E Od 0 []"
    by (simp add: pick_singular_triples_def e)
  also have "\<dots> = Inr ([] @ take (to_size_t max_dim - length ([] :: (real \<times> 'a \<times> 'a) list))
            (takeWhile (\<lambda>t'. \<not> ratio_below (fst t') (fst t) sv_cutoff)
               (interleave (drop 0 E) (drop 0 Od))))"
    using assms(1) by (intro pick_loop_closed) simp_all
  finally show ?thesis by (simp add: e)
qed


lemma mod_neg_range:
  fixes m :: int
  assumes "- (2 ^ 31) \<le> m" and "m < 0"
  shows "m mod 2 ^ 64 = m + 2 ^ 64"
proof -
  have "(m + 2 ^ 64) mod 2 ^ 64 = m + 2 ^ 64"
    using assms by (intro mod_pos_pos_trivial) simp_all
  then show ?thesis by simp
qed

lemma size_eq_iff:
  assumes "- (2 ^ 31) \<le> max_dim" and "max_dim < 2 ^ 31" and "n < 2 ^ 63"
  shows "n = to_size_t max_dim \<longleftrightarrow> int n = max_dim"
proof (cases "0 \<le> max_dim")
  case True
  then have "max_dim mod 2 ^ 64 = max_dim" using assms(2) by (intro mod_pos_pos_trivial) simp_all
  then show ?thesis using True by (auto simp: to_size_t_def)
next
  case False
  then have "max_dim mod 2 ^ 64 = max_dim + 2 ^ 64"
    using assms(1) by (intro mod_neg_range) simp_all
  then have "int (to_size_t max_dim) = max_dim + 2 ^ 64"
    using assms(1) by (simp add: to_size_t_def)
  moreover have "int n < 2 ^ 63" using assms(3) by simp
  ultimately have "int n \<noteq> int (to_size_t max_dim)" using assms(1) by simp
  then show ?thesis using False by auto
qed

lemma pick_loop_lockstep:
  assumes "length Od = length E" and "s0 \<noteq> 0"
    and "- (2 ^ 31) \<le> max_dim" and "max_dim < 2 ^ 31"
    and "length acc + 2 * (length E - i) < 2 ^ 63"
  shows "pick_loop nd max_dim c s0 E Od i acc
     = Inr (lockstep_spec max_dim c s0 (drop i E) (drop i Od) acc)"
  using assms
proof (induction nd max_dim c s0 E Od i acc rule: pick_loop.induct)
  case (1 nd max_dim c s0 E Od i acc)
  show ?case
  proof (cases "i < length E")
    case False
    then show ?thesis by (subst pick_loop.simps) simp
  next
    case True
    then have lt': "i < length Od" using "1.prems"(1) by simp
    have dE: "drop i E = E ! i # drop (Suc i) E" using True by (simp add: Cons_nth_drop_Suc)
    have dO: "drop i Od = Od ! i # drop (Suc i) Od" using lt' by (simp add: Cons_nth_drop_Suc)
    have s1: "length acc = to_size_t max_dim \<longleftrightarrow> int (length acc) = max_dim"
      using "1.prems" by (intro size_eq_iff) simp_all
    have s2: "Suc (length acc) = to_size_t max_dim \<longleftrightarrow> int (Suc (length acc)) = max_dim"
      using "1.prems" True by (intro size_eq_iff) simp_all
    have r: "\<And>a. ratio_below a s0 c \<longleftrightarrow> a / s0 < c"
      using "1.prems"(2) by (simp add: ratio_below_def)
    show ?thesis
    proof (cases "length acc \<noteq> to_size_t max_dim \<and> \<not> ratio_below (fst (E ! i)) s0 c
        \<and> Suc (length acc) \<noteq> to_size_t max_dim \<and> \<not> ratio_below (fst (Od ! i)) s0 c")
      case False
      then show ?thesis using True lt' s1 s2
        by (subst pick_loop.simps) (auto simp: dE dO r Let_def)
    next
      case go: True
      then have "pick_loop nd max_dim c s0 E Od i acc
          = pick_loop nd max_dim c s0 E Od (Suc i) ((acc @ [E ! i]) @ [Od ! i])"
        using True lt' by (subst pick_loop.simps) (simp add: Let_def)
      also have "\<dots> = Inr (lockstep_spec max_dim c s0 (drop (Suc i) E) (drop (Suc i) Od)
            ((acc @ [E ! i]) @ [Od ! i]))"
        using go True lt' "1.prems" by (intro "1.IH") (auto simp: Let_def)
      also have "\<dots> = Inr (lockstep_spec max_dim c s0 (drop i E) (drop i Od) acc)"
        using go s1 s2 by (simp add: dE dO r)
      finally show ?thesis .
    qed
  qed
qed

lemma take_takeWhile_prefix: "take m (takeWhile P xs) = take (min m (length (takeWhile P xs))) xs"
proof -
  have "take m (takeWhile P xs) = take m (take (length (takeWhile P xs)) xs)"
    by (simp add: takeWhile_eq_take [symmetric])
  then show ?thesis by (simp add: min.commute)
qed

lemma impl_success:
  assumes "generate_ir_basis_functions_impl ext knl max_dim c Nl n ex ey = Inr (sv, u, v)"
  shows "\<exists>picked. pick_singular_triples (ndebug ext) max_dim c (svd_even ext knl Nl n ex ey)
              (svd_odd ext knl Nl n ex ey) = Inr picked
          \<and> sv = map (\<lambda>t. to_double ext (fst t)) picked \<and> check_decreasing sv 0 = Inr ()
          \<and> (\<exists>u0 v0. gen_pp ext Nl ex (map (\<lambda>t. fst (snd t)) picked) = Inr u0
                \<and> gen_pp ext Nl ey (map (\<lambda>t. snd (snd t)) picked) = Inr v0
                \<and> sign_loop ext 0 u0 v0 = Inr (u, v))"
  using assms
  by (auto simp: generate_ir_basis_functions_impl_def Let_def
      split: sum.splits if_splits prod.splits)

lemma take_takeWhile_holds:
  "t \<in> set (take m (takeWhile Q xs)) \<Longrightarrow> Q t"
  by (meson in_set_takeD set_takeWhileD)

lemma take_takeWhile_stop:
  assumes "r = take m (takeWhile Q xs)" and "length r < m" and "length r < length xs"
  shows "\<not> Q (xs ! length r)"
proof -
  have "r = takeWhile Q xs" using assms(1,2) by simp
  then show ?thesis using assms(3) nth_length_takeWhile [of Q xs] by simp
qed

lemma take_takeWhile_rest:
  fixes f :: "'a \<Rightarrow> real"
  assumes "r = take m (takeWhile (\<lambda>t. \<not> f t < c) xs)" and "length r < m"
    and "sorted_wrt (\<ge>) (map f xs)" and "t \<in> set (drop (length r) xs)"
  shows "f t < c"
proof -
  from assms(4) obtain j where j: "j < length xs - length r" "t = xs ! (length r + j)"
    by (auto simp: in_set_conv_nth)
  then have lt: "length r < length xs" by simp
  have stop: "f (xs ! length r) < c"
    using take_takeWhile_stop [OF assms(1,2) lt] by simp
  have "f (xs ! (length r + j)) \<le> f (xs ! length r)"
  proof (cases j)
    case 0
    then show ?thesis by simp
  next
    case (Suc k)
    have "map f xs ! (length r) \<ge> map f xs ! (length r + j)"
      using sorted_wrt_nth_less [OF assms(3), of "length r" "length r + j"] j(1) Suc by simp
    then show ?thesis using j(1) lt by simp
  qed
  with stop j(2) show ?thesis by simp
qed

lemma hd_interleave: "length ys = length xs \<Longrightarrow> xs \<noteq> [] \<Longrightarrow> hd (interleave xs ys) = hd xs"
  by (cases xs; cases ys) simp_all

lemma interleave_subset: "set (interleave xs ys) \<subseteq> set xs \<union> set ys"
  by (induction xs ys rule: interleave.induct) auto

lemma length_gen_pp: "gen_pp ext Nl edges vs = Inr ps \<Longrightarrow> length ps = length vs"
  by (auto simp: gen_pp_def split: if_splits)

lemma gen_pp_failure:
  "gen_pp ext Nl edges vs = Inl e \<Longrightarrow> e = assertion_failed \<or> e = out_of_range"
  by (auto simp: gen_pp_def split: if_splits)

lemma sign_loop_length:
  assumes "sign_loop ext i u v = Inr (u', v')" and "length v = length u"
  shows "length u' = length u \<and> length v' = length u"
  using assms by (auto simp: sign_loop_closed)

lemma take_takeWhile_is_prefix:
  "take (length (take m (takeWhile P xs))) xs = take m (takeWhile P xs)"
proof -
  let ?k = "min m (length (takeWhile P xs))"
  have e: "take m (takeWhile P xs) = take ?k xs" by (rule take_takeWhile_prefix)
  have "?k \<le> length xs" using length_takeWhile_le [of P xs] by simp
  then have "length (take ?k xs) = ?k" by simp
  then show ?thesis by (simp only: e)
qed

lemma pick_singular_triples_length:
  assumes "pick_singular_triples nd max_dim cutoff E Od = Inr r"
  shows "length r \<le> to_size_t max_dim"
proof (cases E)
  case Nil
  then show ?thesis using assms by (simp add: pick_singular_triples_def)
next
  case (Cons t ts)
  then have "pick_loop nd max_dim cutoff (fst t) E Od 0 [] = Inr r"
    using assms by (simp add: pick_singular_triples_def)
  then show ?thesis by (rule pick_loop_length) simp
qed

lemma pick_loop_failure:
  "pick_loop nd max_dim c s0 E Od i acc = Inl e \<Longrightarrow> e = eigen_index_failure nd"
proof (induction nd max_dim c s0 E Od i acc rule: pick_loop.induct)
  case (1 nd max_dim c s0 E Od i acc)
  show ?case
  proof (cases "i < length E \<and> length acc \<noteq> to_size_t max_dim
      \<and> \<not> ratio_below (fst (E ! i)) s0 c
      \<and> Suc (length acc) \<noteq> to_size_t max_dim \<and> i < length Od
      \<and> \<not> ratio_below (fst (Od ! i)) s0 c")
    case True
    then have "pick_loop nd max_dim c s0 E Od i acc
        = pick_loop nd max_dim c s0 E Od (Suc i) ((acc @ [E ! i]) @ [Od ! i])"
      by (subst pick_loop.simps) (simp add: Let_def)
    with "1.prems"
    have "pick_loop nd max_dim c s0 E Od (Suc i) ((acc @ [E ! i]) @ [Od ! i]) = Inl e" by simp
    then show ?thesis using True by (intro "1.IH") (auto simp: Let_def)
  next
    case False
    then show ?thesis using "1.prems"
      by (subst (asm) pick_loop.simps) (auto simp: Let_def split: if_splits)
  qed
qed

lemma pick_singular_triples_failure:
  "pick_singular_triples nd max_dim c E Od = Inl e \<Longrightarrow> e = eigen_index_failure nd"
  by (auto simp: pick_singular_triples_def split: list.splits dest: pick_loop_failure)

lemma check_decreasing_failure:
  "check_decreasing sv l = Inl e \<Longrightarrow>
     e = runtime_error not_decreasing_message \<or> e = out_of_range"
proof (induction sv l rule: check_decreasing.induct)
  case (1 sv l)
  show ?case
  proof (cases "l < check_bound sv \<and> Suc l < length sv \<and> \<not> sv ! l < sv ! (l + 1)")
    case True
    then have "check_decreasing sv l = check_decreasing sv (Suc l)"
      by (subst check_decreasing.simps) simp
    with "1.prems" have "check_decreasing sv (Suc l) = Inl e" by simp
    then show ?thesis using True by (intro "1.IH") auto
  next
    case False
    then show ?thesis using "1.prems"
      by (subst (asm) check_decreasing.simps) (auto split: if_splits)
  qed
qed

lemma sign_loop_failure:
  "sign_loop ext i u v = Inl e \<Longrightarrow> e = out_of_range"
proof (induction ext i u v rule: sign_loop.induct)
  case (1 ext i u v)
  show ?case
  proof (cases "i < length u")
    case False
    then show ?thesis using "1.prems" by (subst (asm) sign_loop.simps) simp
  next
    case lt: True
    show ?thesis
    proof (cases "compute_value ext (u ! i) 1 < 0")
      case False
      then have "sign_loop ext i u v = sign_loop ext (Suc i) u v"
        using lt by (subst sign_loop.simps) simp
      with "1.prems" have "sign_loop ext (Suc i) u v = Inl e" by simp
      then show ?thesis using lt False by (intro "1.IH"(2)) auto
    next
      case True
      show ?thesis
      proof (cases "i < length v")
        case False
        then show ?thesis using "1.prems" lt True by (subst (asm) sign_loop.simps) simp
      next
        case iv: True
        have "sign_loop ext i u v = sign_loop ext (Suc i)
            (u [i := scalar_mult ext (- 1) (u ! i)]) (v [i := scalar_mult ext (- 1) (v ! i)])"
          using lt True iv by (subst sign_loop.simps) simp
        with "1.prems" have "sign_loop ext (Suc i)
            (u [i := scalar_mult ext (- 1) (u ! i)]) (v [i := scalar_mult ext (- 1) (v ! i)])
            = Inl e" by simp
        then show ?thesis using lt True iv by (intro "1.IH"(1)) auto
      qed
    qed
  qed
qed

lemma impl_failure:
  assumes "generate_ir_basis_functions_impl ext knl max_dim cutoff Nl n ex ey = Inl e"
  shows "e = runtime_error not_decreasing_message \<or> e = out_of_range \<or> e = assertion_failed"
  using assms
  by (auto simp: generate_ir_basis_functions_impl_def Let_def
      split: sum.splits if_splits prod.splits
      dest: pick_singular_triples_failure check_decreasing_failure sign_loop_failure
        gen_pp_failure simp: eigen_index_failure_def)

lemma pick_nothing:
  assumes "E \<noteq> []" and "max_dim = 0 \<or> (1 < cutoff \<and> fst (hd E) \<noteq> 0)"
  shows "pick_singular_triples nd max_dim cutoff E Od = Inr []"
proof -
  from assms(1) obtain t ts where e: "E = t # ts" by (cases E) auto
  have "length ([] :: (real \<times> 'a \<times> 'a) list) = to_size_t max_dim
      \<or> ratio_below (fst (E ! 0)) (fst t) cutoff"
    using assms(2) by (auto simp: to_size_t_def ratio_below_def e)
  then have "pick_loop nd max_dim cutoff (fst t) E Od 0 [] = Inr []"
    by (subst pick_loop.simps) (simp add: e)
  then show ?thesis by (simp add: pick_singular_triples_def e)
qed

lemma impl_pick_nothing:
  assumes "pick_singular_triples (ndebug ext) max_dim cutoff (svd_even ext knl Nl n ex ey)
             (svd_odd ext knl Nl n ex ey) = Inr []"
  shows "generate_ir_basis_functions_impl ext knl max_dim cutoff Nl n ex ey = Inl out_of_range"
  using assms
  by (simp add: generate_ir_basis_functions_impl_def check_decreasing_empty)

lemma impl_no_decomposition:
  assumes "svd_even ext knl Nl n ex ey = []"
  shows "generate_ir_basis_functions_impl ext knl max_dim cutoff Nl n ex ey
     = Inl (eigen_index_failure (ndebug ext))"
  using assms
  by (simp add: generate_ir_basis_functions_impl_def pick_singular_triples_def)

lemma ctor_impl_failure:
  assumes "compute_approximate_nodes_even_sector ext (kernel_eval knl) 250 (1 / 10 ^ 12)
           = (nodes_x, nodes_y)"
    and "generate_ir_basis_functions_impl ext knl max_dim cutoff Nl 12
           (gen_section_edges nodes_x) (gen_section_edges nodes_y) = Inl e"
  shows "ir_basis_set_ctor ext knl max_dim cutoff Nl = Inl e"
  using assms by (simp add: ir_basis_set_ctor_def generate_ir_basis_functions_def)




lemma check_decreasing_iff:
  assumes "length sv < 2 ^ 64"
  shows "check_decreasing sv 0 = Inl (runtime_error not_decreasing_message)
     \<longleftrightarrow> (\<exists>l. Suc l < length sv \<and> sv ! l < sv ! Suc l)"
proof (cases "sv = []")
  case True
  then show ?thesis by (simp add: check_decreasing_empty)
next
  case False
  then show ?thesis using check_decreasing_nonempty [OF False assms, of 0] by auto
qed

lemma round_to_grid_values:
  "round_to_grid 0 = 0" "round_to_grid 1 = 1" "round_to_grid 2 = 2"
  "round_to_grid (1 / 2) = 1 / 2" "round_to_grid (1 / 4) = 1 / 4"
  "round_to_grid (3 / 4) = 3 / 4"
  "round_to_grid (1 / 2 + 1 / 2 ^ 20) = 1 / 2"
  by (simp_all add: round_to_grid_def)

section \<open>The model on the sample inputs\<close>

lemma sample_fields:
  "ndebug (sample_externals nd py evens odds) = nd"
  "python_checks (sample_externals nd py evens odds) = py"
  "to_double (sample_externals nd py evens odds) = round_to_grid"
  "compute_value (sample_externals nd py evens odds) = poly_value"
  "scalar_mult (sample_externals nd py evens odds) = (\<lambda>c p. map (\<lambda>a. c * a) p)"
  "num_sections (sample_externals nd py evens odds) = (\<lambda>p. 1)"
  "compute_approximate_nodes_even_sector (sample_externals nd py evens odds)
     = (\<lambda>k n tol. ([1 / 2], [1 / 2]))"
  "gen_pp_vector (sample_externals nd py evens odds) = (\<lambda>Nl edges v vec. vec)"
  "unit_norm (sample_externals nd py evens odds)
     = (\<lambda>vec. \<bar>sum_list (map (\<lambda>a. a * a) vec) - 1\<bar> < 1 / 10 ^ 8)"
  by (simp_all add: sample_externals_def)

lemma sample_svd:
  "svd_even (sample_externals nd py evens odds) sample_kernel Nl n ex ey = evens"
  "svd_odd (sample_externals nd py evens odds) sample_kernel Nl n ex ey = odds"
  by (simp_all add: svd_even_def svd_odd_def sample_externals_def kernel_even_def kernel_odd_def
      kernel_eval_def sample_kernel_def fermionic_kernel_def)

lemmas sample_eval =
  generate_ir_basis_functions_impl_def pick_singular_triples_def pick_loop.simps
  check_decreasing.simps sign_loop.simps sample_fields sample_svd sample_even_def sample_odd_def
  to_size_t_def ratio_below_def check_bound_def gen_pp_def poly_value_def upt_rec Let_def
  eigen_index_failure_def round_to_grid_def

lemma sample_impl_1:
  "generate_ir_basis_functions_impl (sample_externals nd py sample_even sample_odd)
     sample_kernel 1 (1 / 10) 10 12 [0, 1 / 2, 1] [0, 1 / 2, 1] = Inr ([1], [[1]], [[1]])"
  by (simp add: sample_eval)

lemma sample_impl_3:
  "generate_ir_basis_functions_impl (sample_externals nd py sample_even sample_odd)
     sample_kernel 10 (3 / 10) 10 12 [0, 1 / 2, 1] [0, 1 / 2, 1]
   = Inr ([1, 3 / 4, 1 / 2], [[1], [- (3 / 5), 4 / 5], [0, 0, 1]], [[1], [0, - 1], [0, 0, 1]])"
  by (simp add: sample_eval)

lemma sample_kernel_statistics: "get_statistics sample_kernel = FERMIONIC"
  by (simp add: sample_kernel_def)


lemmas sample_facade = ulx_def vly_def dim_def sample_basis_def sample_fields poly_value_def


lemma poly_value_scale: "poly_value (map (\<lambda>a. c * a) p) x = c * poly_value p x"
  unfolding poly_value_def by (induction p) (simp_all add: algebra_simps)

lemma sample_nodes:
  "compute_approximate_nodes_even_sector (sample_externals nd py evens odds)
     (kernel_eval sample_kernel) 250 (1 / 10 ^ 12) = ([1 / 2], [1 / 2])"
  by (simp add: sample_fields)

lemma sample_unstable:
  "ir_basis_set_ctor (sample_externals nd py (sample_triples [1, 1 / 2]) (sample_triples [2, 1 / 4]))
     sample_kernel 10 (1 / 10) 10 = Inl (runtime_error not_decreasing_message)"
  "ir_basis_set_ctor (sample_externals nd py (sample_triples [1, 1]) (sample_triples [1 / 2, 1 / 4]))
     sample_kernel 10 (1 / 10) 10 = Inl (runtime_error not_decreasing_message)"
  by (simp_all add: ir_basis_set_ctor_def generate_ir_basis_functions_def gen_section_edges_def
      sample_eval sample_triples_def)

lemma sample_hidden:
  "ir_basis_set_ctor
     (sample_externals nd py (sample_triples [1, 1 / 2 + 1 / 2 ^ 20]) (sample_triples [1 / 2, 1 / 4]))
     sample_kernel 10 (1 / 10) 10
   = Inr \<lparr>m_statistics = FERMIONIC, m_sv = [1, 1 / 2, 1 / 2, 1 / 4],
          m_u_basis = [[1], [1], [1], [1]], m_v_basis = [[1], [1], [1], [1]]\<rparr>"
  by (simp add: ir_basis_set_ctor_def generate_ir_basis_functions_def gen_section_edges_def
      sample_eval sample_triples_def sample_kernel_statistics)

section \<open>The retained singular values\<close>

text \<open>
  C1, as the code has it. For every construction that completes, with \<open>0 \<le> max_dim\<close>,
  decompositions of equal size with non-negative singular values and a positive leading
  even one: the retained singular values are non-increasing and non-negative, there is at
  least one and at most \<open>max_dim\<close> of them, they are a prefix of the merged sequence
  (even 0, odd 0, even 1, odd 1, ...), the first is the leading even singular value, and
  every retained one divided by the first is at least the cutoff. An excluded singular
  value is below the cutoff only when the truncation was not the one by \<open>max_dim\<close>: if
  fewer than \<open>max_dim\<close> are retained, the first excluded one of the merged sequence is
  below the cutoff, and every excluded one is when the whole merged sequence is
  non-increasing.

  The stored values are the conversions to \<^verbatim>\<open>double\<close> of the computed ones, and the
  loop compares the computed ones. So the statement has three parts: what holds of the
  stored values whatever the conversion does (order, count, and that they are the
  converted prefix), with the quotients taken of the computed values; that the stored
  values are non-negative when the conversion keeps non-negative numbers non-negative; and
  all of the above for the stored values themselves, quotients by \<open>sv ! 0\<close> included, when
  the conversion is exact on the singular values of the two decompositions.
\<close>

theorem retained_singular_values:
  fixes ext :: "('vec, 'pp) externals"
  assumes ok: "generate_ir_basis_functions_impl ext knl max_dim cutoff Nl n ex ey = Inr (sv, u, v)"
    and E: "E = svd_even ext knl Nl n ex ey" and Od: "Od = svd_odd ext knl Nl n ex ey"
    and len: "length Od = length E"
    and nonneg: "\<forall>t \<in> set E \<union> set Od. 0 \<le> fst t"
    and pos: "0 < fst (hd E)"
    and md: "0 \<le> max_dim" "max_dim < 2 ^ 31"
  shows "(\<forall>l. Suc l < length sv \<longrightarrow> sv ! Suc l \<le> sv ! l)
       \<and> 1 \<le> length sv \<and> int (length sv) \<le> max_dim
       \<and> length u = length sv \<and> length v = length sv
       \<and> sv = map (to_double ext) (take (length sv) (map fst (interleave E Od)))
       \<and> (\<forall>l<length sv. cutoff \<le> map fst (interleave E Od) ! l / fst (hd E))
       \<and> (int (length sv) < max_dim \<and> length sv < 2 * length E
            \<longrightarrow> map fst (interleave E Od) ! length sv / fst (hd E) < cutoff)
       \<and> (int (length sv) < max_dim \<and> sorted_wrt (\<ge>) (map fst (interleave E Od))
            \<longrightarrow> (\<forall>x \<in> set (drop (length sv) (map fst (interleave E Od))).
                   x / fst (hd E) < cutoff))
       \<and> ((\<forall>x. 0 \<le> x \<longrightarrow> 0 \<le> to_double ext x) \<longrightarrow> (\<forall>l<length sv. 0 \<le> sv ! l))
       \<and> ((\<forall>t \<in> set E \<union> set Od. to_double ext (fst t) = fst t) \<longrightarrow>
            (\<forall>l<length sv. 0 \<le> sv ! l)
          \<and> sv ! 0 = fst (hd E)
          \<and> (\<forall>l<length sv. cutoff \<le> sv ! l / sv ! 0)
          \<and> sv = take (length sv) (map fst (interleave E Od))
          \<and> (int (length sv) < max_dim \<and> length sv < 2 * length E
               \<longrightarrow> map fst (interleave E Od) ! length sv / sv ! 0 < cutoff)
          \<and> (int (length sv) < max_dim \<and> sorted_wrt (\<ge>) (map fst (interleave E Od))
               \<longrightarrow> (\<forall>x \<in> set (drop (length sv) (map fst (interleave E Od))).
                      x / sv ! 0 < cutoff)))"
proof -
  let ?s0 = "fst (hd E)"
  let ?Q = "\<lambda>t :: real \<times> 'vec \<times> 'vec. \<not> ratio_below (fst t) ?s0 cutoff"
  let ?xs = "interleave E Od"
  let ?M = "to_size_t max_dim"
  from impl_success [OF ok] obtain picked u0 v0 where
    p: "pick_singular_triples (ndebug ext) max_dim cutoff E Od = Inr picked"
    and sv: "sv = map (\<lambda>t. to_double ext (fst t)) picked"
    and chk: "check_decreasing sv 0 = Inr ()"
    and u0: "gen_pp ext Nl ex (map (\<lambda>t. fst (snd t)) picked) = Inr u0"
    and v0: "gen_pp ext Nl ey (map (\<lambda>t. snd (snd t)) picked) = Inr v0"
    and sl: "sign_loop ext 0 u0 v0 = Inr (u, v)"
    unfolding E Od by blast
  have lsv: "length sv = length picked" using sv by simp
  have ne: "E \<noteq> []" using p by (auto simp: pick_singular_triples_def)
  have M: "?M = nat max_dim" using md by (intro to_size_t_nonneg) simp_all
  have rb: "ratio_below a ?s0 cutoff \<longleftrightarrow> a / ?s0 < cutoff" for a
    using pos by (simp add: ratio_below_def)
  have picked: "picked = take ?M (takeWhile ?Q ?xs)"
    using pick_singular_triples_closed [OF len ne, of "ndebug ext" max_dim cutoff] p by simp
  have lenp: "length picked \<le> ?M" by (subst picked) simp
  have svne: "sv \<noteq> []" using chk check_decreasing_empty by auto
  then have pne: "picked \<noteq> []" using sv by auto
  have small: "length sv < 2 ^ 64"
    using lenp to_size_t_less [of max_dim] lsv by simp
  have "\<not> (\<exists>k\<ge>0. Suc k < length sv \<and> sv ! k < sv ! Suc k)"
    using chk check_decreasing_nonempty [OF svne small, of 0]
    by (auto split: if_splits)
  then have mono: "\<forall>l. Suc l < length sv \<longrightarrow> sv ! Suc l \<le> sv ! l"
    by (metis le0 not_less)
  have inE: "set picked \<subseteq> set E \<union> set Od"
    using interleave_subset [of E Od] set_takeWhileD [of _ ?Q ?xs]
    by (subst picked) (auto dest!: in_set_takeD)
  have pnn: "0 \<le> fst (picked ! l)" if "l < length sv" for l
  proof -
    have "picked ! l \<in> set picked" using that lsv by simp
    then have "picked ! l \<in> set E \<union> set Od" using inE by blast
    then show ?thesis using nonneg by blast
  qed
  have dimle: "int (length sv) \<le> max_dim" using lenp M md lsv by simp
  have lens: "length u = length sv \<and> length v = length sv"
    using sign_loop_length [OF sl] length_gen_pp [OF u0] length_gen_pp [OF v0] lsv by simp
  have prefix: "picked = take (length picked) ?xs"
    by (subst (1 2) picked) (simp only: take_takeWhile_is_prefix)
  have xsne: "?xs \<noteq> []" using pne prefix by auto
  have nthp: "fst (picked ! l) = map fst ?xs ! l" if "l < length sv" for l
  proof -
    have "l < length ?xs" using that lsv prefix
      by (metis length_take min_less_iff_conj)
    moreover have "picked ! l = ?xs ! l"
      using that lsv by (subst prefix) simp
    ultimately show ?thesis by simp
  qed
  have "picked ! 0 = ?xs ! 0" using pne by (subst prefix) simp
  then have p0: "picked ! 0 = hd E"
    using xsne hd_interleave [OF len ne] by (simp add: hd_conv_nth)
  have retp: "cutoff \<le> fst (picked ! l) / ?s0" if "l < length sv" for l
  proof -
    have "picked ! l \<in> set (take ?M (takeWhile ?Q ?xs))"
      using that lsv picked by (metis nth_mem)
    then have "?Q (picked ! l)" by (rule take_takeWhile_holds)
    then show ?thesis by (simp add: rb not_less)
  qed
  have ret: "\<forall>l<length sv. cutoff \<le> map fst ?xs ! l / ?s0"
    using retp nthp by simp
  have "map fst picked = take (length sv) (map fst ?xs)"
    using prefix lsv by (metis take_map)
  then have pre: "sv = map (to_double ext) (take (length sv) (map fst ?xs))"
    using sv by (metis (mono_tags, lifting) map_map comp_apply map_eq_conv)
  have Q': "?Q = (\<lambda>t. \<not> fst t < cutoff * ?s0)"
    using pos by (auto simp: rb pos_divide_less_eq fun_eq_iff)
  have first: "map fst ?xs ! length sv / ?s0 < cutoff"
    if "int (length sv) < max_dim" and "length sv < 2 * length E"
  proof -
    have "length picked < ?M" using that(1) M lsv by simp
    moreover have "length picked < length ?xs"
      using that(2) lsv len by (simp add: length_interleave)
    ultimately have "\<not> ?Q (?xs ! length picked)"
      using take_takeWhile_stop [OF picked] by blast
    then show ?thesis
      using \<open>length picked < length ?xs\<close> lsv by (simp add: rb)
  qed
  have rest: "x / ?s0 < cutoff"
    if "int (length sv) < max_dim" and "sorted_wrt (\<ge>) (map fst ?xs)"
      and "x \<in> set (drop (length sv) (map fst ?xs))" for x
  proof -
    have l: "length picked < ?M" using that(1) M lsv by simp
    from that(3) obtain t where t: "t \<in> set (drop (length picked) ?xs)" "x = fst t"
      using lsv by (auto simp: drop_map)
    have "fst t < cutoff * ?s0"
      using picked l that(2) t(1) unfolding Q' by (rule take_takeWhile_rest)
    then show ?thesis using t(2) pos by (simp add: pos_divide_less_eq)
  qed
  have nn: "\<forall>l<length sv. 0 \<le> sv ! l" if "\<forall>x. 0 \<le> x \<longrightarrow> 0 \<le> to_double ext x"
    using that pnn sv by simp
  have exact: "(\<forall>l<length sv. 0 \<le> sv ! l) \<and> sv ! 0 = ?s0
      \<and> (\<forall>l<length sv. cutoff \<le> sv ! l / sv ! 0)
      \<and> sv = take (length sv) (map fst ?xs)
      \<and> (int (length sv) < max_dim \<and> length sv < 2 * length E
           \<longrightarrow> map fst ?xs ! length sv / sv ! 0 < cutoff)
      \<and> (int (length sv) < max_dim \<and> sorted_wrt (\<ge>) (map fst ?xs)
           \<longrightarrow> (\<forall>x \<in> set (drop (length sv) (map fst ?xs)). x / sv ! 0 < cutoff))"
    if ex: "\<forall>t \<in> set E \<union> set Od. to_double ext (fst t) = fst t"
  proof -
    have "\<forall>t \<in> set picked. to_double ext (fst t) = fst t" using ex inE by blast
    then have sve: "sv = map fst picked" using sv by simp
    have sv0: "sv ! 0 = ?s0" using sve pne p0 by simp
    have a: "\<forall>l<length sv. 0 \<le> sv ! l" using pnn sve by simp
    have b: "\<forall>l<length sv. cutoff \<le> sv ! l / sv ! 0" using retp sve sv0 by simp
    have c: "sv = take (length sv) (map fst ?xs)"
      using prefix sve by (metis length_map take_map)
    show ?thesis using a b c sv0 first rest by simp
  qed
  have one: "1 \<le> length sv" using svne by (simp add: Suc_le_eq)
  show ?thesis
    using mono one dimle lens ret pre first rest nn exact by blast
qed

text \<open>
  The claim as stated fails where the truncation is by \<open>max_dim\<close>: with \<open>max_dim = 1\<close>
  and cutoff \<open>1/10\<close> only the leading value is retained, and the excluded values
  \<open>3/4\<close>, \<open>1/2\<close>, \<open>1/4\<close> are all above the cutoff.
\<close>

theorem excluded_value_counterexample:
  "generate_ir_basis_functions_impl (sample_externals True False sample_even sample_odd)
     sample_kernel 1 (1 / 10) 10 12 [0, 1 / 2, 1] [0, 1 / 2, 1] = Inr ([1], [[1]], [[1]])
   \<and> drop (length [1 :: real]) (map fst (interleave sample_even sample_odd)) = [3 / 4, 1 / 2, 1 / 4]
   \<and> \<not> ((3 / 4) / [1 :: real] ! 0 < 1 / 10)"
  by (simp add: sample_impl_1) (simp add: sample_even_def sample_odd_def)

theorem retained_singular_values_witness:
  "generate_ir_basis_functions_impl (sample_externals True False sample_even sample_odd)
     sample_kernel 10 (3 / 10) 10 12 [0, 1 / 2, 1] [0, 1 / 2, 1]
   = Inr ([1, 3 / 4, 1 / 2], [[1], [- (3 / 5), 4 / 5], [0, 0, 1]], [[1], [0, - 1], [0, 0, 1]])
   \<and> int (length [1, 3 / 4, 1 / 2 :: real]) \<le> 10
   \<and> (3 / 10 :: real) \<le> [1, 3 / 4, 1 / 2] ! 2 / [1, 3 / 4, 1 / 2] ! 0
   \<and> map fst (interleave sample_even sample_odd) ! 3 / [1, 3 / 4, 1 / 2] ! 0 < (3 / 10 :: real)"
proof -
  let ?ext = "sample_externals True False sample_even sample_odd"
  have len: "length sample_odd = length sample_even"
    by (simp add: sample_even_def sample_odd_def)
  have nonneg: "\<forall>t \<in> set sample_even \<union> set sample_odd. 0 \<le> fst t"
    by (simp add: sample_even_def sample_odd_def)
  have pos: "0 < fst (hd sample_even)" by (simp add: sample_even_def)
  have E: "sample_even = svd_even ?ext sample_kernel 10 12 [0, 1 / 2, 1] [0, 1 / 2, 1]"
    and Od: "sample_odd = svd_odd ?ext sample_kernel 10 12 [0, 1 / 2, 1] [0, 1 / 2, 1]"
    by (simp_all add: sample_svd)
  have md: "(0 :: int) \<le> 10" "(10 :: int) < 2 ^ 31" by simp_all
  have ex: "\<forall>t \<in> set sample_even \<union> set sample_odd. to_double ?ext (fst t) = fst t"
    by (simp add: sample_even_def sample_odd_def sample_fields round_to_grid_values)
  note r = retained_singular_values [OF sample_impl_3 E Od len nonneg pos md]
  from r ex have "(3 / 10 :: real) \<le> [1, 3 / 4, 1 / 2] ! 2 / [1, 3 / 4, 1 / 2] ! 0
     \<and> map fst (interleave sample_even sample_odd) ! 3 / [1, 3 / 4, 1 / 2] ! 0 < (3 / 10 :: real)"
    by (simp add: sample_even_def sample_odd_def)
  then show ?thesis using sample_impl_3 by simp
qed

text \<open>
  Why the quotients are those of the computed values. With the sample conversion, which
  rounds to ten binary digits, the computed values \<open>1 + 2^-11\<close> and \<open>1/2 + 2^-12\<close> have
  the quotient \<open>1/2\<close>, so both are retained at the cutoff \<open>1/2\<close>; they are stored as
  \<open>1025/1024\<close> and \<open>1/2\<close>, whose quotient is below \<open>1/2\<close>.
\<close>

lemma stored_quotient_sample:
  "generate_ir_basis_functions_impl
     (sample_externals True False (sample_triples [1 + 1 / 2 ^ 11])
        (sample_triples [1 / 2 + 1 / 2 ^ 12]))
     sample_kernel 10 (1 / 2) 10 12 [0, 1 / 2, 1] [0, 1 / 2, 1]
   = Inr ([1025 / 1024, 1 / 2], [[1], [1]], [[1], [1]])
   \<and> (1 / 2 + 1 / 2 ^ 12) / (1 + 1 / 2 ^ 11) = (1 / 2 :: real)
   \<and> (1 / 2) / (1025 / 1024) < (1 / 2 :: real)"
  by (simp add: sample_eval sample_triples_def)

section \<open>The lock-step merge\<close>

text \<open>
  C2. The loop of the code computes what the specification's lock-step algorithm
  computes: for \<open>i = 0, 1, 2, ...\<close> the even triple \<open>i\<close> is emitted unless the count
  has reached \<open>max_dim\<close> or its singular value divided by the leading even singular
  value is below the cutoff, then the odd triple \<open>i\<close> under the same test with the same
  reference. The even triple \<open>i\<close> stands at index \<open>2 i\<close> of the result and the odd
  triple \<open>i\<close> at index \<open>2 i + 1\<close>. (\<open>max_dim\<close> is a 32 bit \<^verbatim>\<open>int\<close>, the two
  decompositions have the same size, below \<open>2^62\<close>, and the leading even singular value
  is not zero.)
\<close>

theorem truncation_merge_lockstep:
  assumes "length Od = length E" and "E \<noteq> []" and "fst (hd E) \<noteq> 0"
    and "- (2 ^ 31) \<le> max_dim" and "max_dim < 2 ^ 31" and "2 * length E < 2 ^ 63"
  shows "\<exists>r. pick_singular_triples nd max_dim cutoff E Od = Inr r
     \<and> r = lockstep_spec max_dim cutoff (fst (hd E)) E Od []
     \<and> (\<forall>i. (2 * i < length r \<longrightarrow> r ! (2 * i) = E ! i)
            \<and> (2 * i + 1 < length r \<longrightarrow> r ! (2 * i + 1) = Od ! i))"
proof -
  from assms(2) obtain t ts where e: "E = t # ts" by (cases E) auto
  let ?r = "lockstep_spec max_dim cutoff (fst (hd E)) E Od []"
  have "pick_singular_triples nd max_dim cutoff E Od
      = pick_loop nd max_dim cutoff (fst (hd E)) E Od 0 []"
    by (simp add: pick_singular_triples_def e)
  also have "\<dots> = Inr (lockstep_spec max_dim cutoff (fst (hd E)) (drop 0 E) (drop 0 Od) [])"
    using assms by (intro pick_loop_lockstep) simp_all
  finally have p: "pick_singular_triples nd max_dim cutoff E Od = Inr ?r" by simp
  have "Inr ?r = Inr (take (to_size_t max_dim)
            (takeWhile (\<lambda>t. \<not> ratio_below (fst t) (fst (hd E)) cutoff) (interleave E Od)))"
    using pick_singular_triples_closed [OF assms(1,2), of nd max_dim cutoff] p by simp
  then obtain n where n: "?r = take n (interleave E Od)"
    by (auto simp: take_takeWhile_prefix)
  have "(2 * i < length ?r \<longrightarrow> ?r ! (2 * i) = E ! i)
      \<and> (2 * i + 1 < length ?r \<longrightarrow> ?r ! (2 * i + 1) = Od ! i)" for i
  proof (cases "i < length E")
    case True
    then show ?thesis
      using interleave_nth [of E Od i] assms(1) by (subst (1 2 3 4) n) auto
  next
    case False
    then have "length ?r \<le> 2 * i"
      using assms(1) by (subst n) (simp add: length_interleave)
    then show ?thesis by simp
  qed
  with p show ?thesis by blast
qed

theorem truncation_merge_lockstep_witness:
  "pick_singular_triples True 10 (3 / 10) sample_even sample_odd
     = Inr [(1, [1], [1]), (3 / 4, [3 / 5, - (4 / 5)], [0, 1]), (1 / 2, [0, 0, 1], [0, 0, 1])]
   \<and> lockstep_spec 10 (3 / 10) (fst (hd sample_even)) sample_even sample_odd []
     = [(1, [1], [1]), (3 / 4, [3 / 5, - (4 / 5)], [0, 1]), (1 / 2, [0, 0, 1], [0, 0, 1])]"
  using truncation_merge_lockstep [where Od = sample_odd and E = sample_even and max_dim = 10
      and nd = True and cutoff = "3 / 10"]
  by (simp add: sample_even_def sample_odd_def)

section \<open>The kernels\<close>

text \<open>
  C3. For every \<open>Lambda > 0\<close> and all \<open>x\<close>, \<open>y\<close> in \<open>[-1,1]\<close> the fermionic kernel is
  \<open>exp (-(Lambda/2) x y - (Lambda/2) y)\<close> when \<open>Lambda y > 200\<close>,
  \<open>exp (-(Lambda/2) x y + (Lambda/2) y)\<close> when \<open>Lambda y < -200\<close>, and
  \<open>exp (-(Lambda/2) x y) / (2 cosh ((Lambda/2) y))\<close> otherwise.
\<close>

theorem fermionic_kernel_branches:
  assumes "0 < Lambda" and "- 1 \<le> x" and "x \<le> 1" and "- 1 \<le> y" and "y \<le> 1"
  shows "(200 < Lambda * y \<longrightarrow>
            fermionic_kernel Lambda x y = exp (- (Lambda / 2) * x * y - (Lambda / 2) * y))
       \<and> (Lambda * y < - 200 \<longrightarrow>
            fermionic_kernel Lambda x y = exp (- (Lambda / 2) * x * y + (Lambda / 2) * y))
       \<and> (- 200 \<le> Lambda * y \<and> Lambda * y \<le> 200 \<longrightarrow>
            fermionic_kernel Lambda x y
              = exp (- (Lambda / 2) * x * y) / (2 * cosh ((Lambda / 2) * y)))"
  by (simp add: fermionic_kernel_def Let_def)

theorem fermionic_kernel_branches_witness:
  "fermionic_kernel 300 (1 / 2) 1 = exp (- 225)
   \<and> fermionic_kernel 300 (1 / 2) (- 1) = exp (- 75)
   \<and> fermionic_kernel 2 1 (1 / 2) = exp (- (1 / 2)) / (2 * cosh (1 / 2))"
  using fermionic_kernel_branches [of 300 "1 / 2" 1]
    fermionic_kernel_branches [of 300 "1 / 2" "- 1"]
    fermionic_kernel_branches [of 2 1 "1 / 2"]
  by simp

text \<open>
  C4, as the code has it. For every \<open>Lambda > 0\<close> and all \<open>x\<close>, \<open>y\<close> in \<open>[-1,1]\<close> the
  bosonic kernel is \<open>exp (-(Lambda/2) x y) / Lambda\<close> when \<open>|Lambda y| < 1e-30\<close>, and
  otherwise \<open>y exp (-(Lambda/2) x y - (Lambda/2) y)\<close> when \<open>Lambda y > 200\<close>,
  \<open>- y exp (-(Lambda/2) x y + (Lambda/2) y)\<close> when \<open>Lambda y < -200\<close> (the leading
  factor is \<open>- y\<close> there, the limit of \<open>y / (2 sinh)\<close>), and
  \<open>y exp (-(Lambda/2) x y) / (2 sinh ((Lambda/2) y))\<close> in between.
\<close>

theorem bosonic_kernel_branches:
  assumes "0 < Lambda" and "- 1 \<le> x" and "x \<le> 1" and "- 1 \<le> y" and "y \<le> 1"
  shows "(\<bar>Lambda * y\<bar> < 1 / 10 ^ 30 \<longrightarrow>
            bosonic_kernel Lambda x y = exp (- (Lambda / 2) * x * y) / Lambda)
       \<and> (200 < Lambda * y \<longrightarrow>
            bosonic_kernel Lambda x y = y * exp (- (Lambda / 2) * x * y - (Lambda / 2) * y))
       \<and> (Lambda * y < - 200 \<longrightarrow>
            bosonic_kernel Lambda x y = - y * exp (- (Lambda / 2) * x * y + (Lambda / 2) * y))
       \<and> (1 / 10 ^ 30 \<le> \<bar>Lambda * y\<bar> \<and> - 200 \<le> Lambda * y \<and> Lambda * y \<le> 200 \<longrightarrow>
            bosonic_kernel Lambda x y
              = y * exp (- (Lambda / 2) * x * y) / (2 * sinh ((Lambda / 2) * y)))"
proof -
  have tiny: "(1 :: real) / 10 ^ 30 < 200" by simp
  have a: "200 < Lambda * y \<Longrightarrow> \<not> \<bar>Lambda * y\<bar> < 1 / 10 ^ 30"
    using tiny by linarith
  have b: "Lambda * y < - 200 \<Longrightarrow> \<not> \<bar>Lambda * y\<bar> < 1 / 10 ^ 30"
    using tiny by linarith
  show ?thesis
    using a b by (auto simp: bosonic_kernel_def Let_def)
qed

theorem bosonic_kernel_branches_witness:
  "bosonic_kernel 300 0 1 = exp (- 150)
   \<and> bosonic_kernel 300 0 (- 1) = exp (- 150)
   \<and> bosonic_kernel 2 1 (1 / 2) = (1 / 2) * exp (- (1 / 2)) / (2 * sinh (1 / 2))
   \<and> bosonic_kernel 2 1 0 = 1 / 2"
  using bosonic_kernel_branches [of 300 0 1] bosonic_kernel_branches [of 300 0 "- 1"]
    bosonic_kernel_branches [of 2 1 "1 / 2"] bosonic_kernel_branches [of 2 1 0]
  by simp

text \<open>
  With the leading factor \<open>y\<close> below the negative threshold, as the claim words it, the
  value at \<open>Lambda = 300\<close>, \<open>x = 0\<close>, \<open>y = -1\<close> would be \<open>- exp (-150)\<close>; the code
  returns \<open>exp (-150)\<close>.
\<close>

theorem bosonic_negative_branch_counterexample:
  "bosonic_kernel 300 0 (- 1) = exp (- 150)
   \<and> bosonic_kernel 300 0 (- 1) \<noteq> (- 1) * exp (- (300 / 2) * 0 * (- 1) + (300 / 2) * (- 1))"
proof -
  have v: "bosonic_kernel 300 0 (- 1) = exp (- 150)"
    by (simp add: bosonic_kernel_def)
  have "(0 :: real) < exp (- 150)" by simp
  then have "exp (- 150) \<noteq> - exp (- 150 :: real)" by linarith
  then show ?thesis using v by simp
qed

section \<open>The facade\<close>




section \<open>The sign convention\<close>

text \<open>
  C6. After a construction that completes, every retained \<open>u_l\<close> has a non-negative
  value at \<open>x = 1\<close>, and \<open>u_l\<close> and \<open>v_l\<close> are flipped together: where the polynomial
  generated for \<open>u_l\<close> is negative at \<open>1\<close>, both \<open>u_l\<close> and \<open>v_l\<close> are the generated
  polynomials multiplied by \<open>-1\<close>, and otherwise both are the generated polynomials.
  (The value at \<open>1\<close> of \<open>-1\<close> times a polynomial is minus its value: the property of
  \<^verbatim>\<open>piecewise_polynomial\<close> this rests on.)
\<close>

theorem endpoint_sign_convention:
  fixes ext :: "('vec, 'pp) externals"
  assumes ok: "generate_ir_basis_functions_impl ext knl max_dim cutoff Nl n ex ey = Inr (sv, u, v)"
    and picked: "pick_singular_triples (ndebug ext) max_dim cutoff (svd_even ext knl Nl n ex ey)
                   (svd_odd ext knl Nl n ex ey) = Inr picked"
    and u0: "gen_pp ext Nl ex (map (\<lambda>t. fst (snd t)) picked) = Inr u0"
    and v0: "gen_pp ext Nl ey (map (\<lambda>t. snd (snd t)) picked) = Inr v0"
    and neg: "\<forall>p. compute_value ext (scalar_mult ext (- 1) p) 1 = - compute_value ext p 1"
  shows "length u = length sv \<and> length v = length sv
       \<and> length u0 = length sv \<and> length v0 = length sv
       \<and> (\<forall>l<length sv. 0 \<le> compute_value ext (u ! l) 1
            \<and> (if compute_value ext (u0 ! l) 1 < 0
               then u ! l = scalar_mult ext (- 1) (u0 ! l) \<and> v ! l = scalar_mult ext (- 1) (v0 ! l)
               else u ! l = u0 ! l \<and> v ! l = v0 ! l))"
proof -
  from impl_success [OF ok] picked
  have sv: "sv = map (\<lambda>t. to_double ext (fst t)) picked"
    and sl: "sign_loop ext 0 u0 v0 = Inr (u, v)"
    using u0 v0 by auto
  have l0: "length u0 = length sv" "length v0 = length sv"
    using length_gen_pp [OF u0] length_gen_pp [OF v0] by (simp_all add: sv)
  then have lv: "length v0 = length u0" by simp
  have u: "u = map (\<lambda>j. if 0 \<le> j \<and> compute_value ext (u0 ! j) 1 < 0
                    then scalar_mult ext (- 1) (u0 ! j) else u0 ! j) [0 ..< length u0]"
    and v: "v = map (\<lambda>j. if 0 \<le> j \<and> compute_value ext (u0 ! j) 1 < 0
                    then scalar_mult ext (- 1) (v0 ! j) else v0 ! j) [0 ..< length u0]"
    using sl sign_loop_closed [OF lv, of ext 0] by simp_all
  have lu: "length u = length sv" "length v = length sv"
    using l0 by (simp_all add: u v)
  have "0 \<le> compute_value ext (u ! l) 1
      \<and> (if compute_value ext (u0 ! l) 1 < 0
         then u ! l = scalar_mult ext (- 1) (u0 ! l) \<and> v ! l = scalar_mult ext (- 1) (v0 ! l)
         else u ! l = u0 ! l \<and> v ! l = v0 ! l)" if "l < length sv" for l
  proof -
    have ul: "u ! l = (if compute_value ext (u0 ! l) 1 < 0
        then scalar_mult ext (- 1) (u0 ! l) else u0 ! l)"
      using that l0 by (subst u) simp
    have vl: "v ! l = (if compute_value ext (u0 ! l) 1 < 0
        then scalar_mult ext (- 1) (v0 ! l) else v0 ! l)"
      using that l0 by (subst v) simp
    show ?thesis using neg by (simp add: ul vl)
  qed
  with lu l0 show ?thesis by simp
qed

theorem endpoint_sign_convention_witness:
  "generate_ir_basis_functions_impl (sample_externals True False sample_even sample_odd)
     sample_kernel 10 (3 / 10) 10 12 [0, 1 / 2, 1] [0, 1 / 2, 1]
   = Inr ([1, 3 / 4, 1 / 2], [[1], [- (3 / 5), 4 / 5], [0, 0, 1]], [[1], [0, - 1], [0, 0, 1]])
   \<and> poly_value [3 / 5, - (4 / 5)] 1 < 0
   \<and> 0 \<le> poly_value [- (3 / 5), 4 / 5] 1
   \<and> [- (3 / 5), 4 / 5] = map (\<lambda>a. - 1 * a) [3 / 5, - (4 / 5) :: real]
   \<and> [0, - 1] = map (\<lambda>a. - 1 * a) [0, 1 :: real]"
proof -
  let ?ext = "sample_externals True False sample_even sample_odd"
  have p: "pick_singular_triples (ndebug ?ext) 10 (3 / 10)
      (svd_even ?ext sample_kernel 10 12 [0, 1 / 2, 1] [0, 1 / 2, 1])
      (svd_odd ?ext sample_kernel 10 12 [0, 1 / 2, 1] [0, 1 / 2, 1])
    = Inr [(1, [1], [1]), (3 / 4, [3 / 5, - (4 / 5)], [0, 1]), (1 / 2, [0, 0, 1], [0, 0, 1])]"
    by (simp add: sample_eval)
  have neg: "\<forall>p. compute_value ?ext (scalar_mult ?ext (- 1) p) 1 = - compute_value ?ext p 1"
    by (simp add: sample_fields poly_value_scale)
  have u0: "gen_pp ?ext 10 [0, 1 / 2, 1] (map (\<lambda>t. fst (snd t))
      [(1, [1], [1]), (3 / 4, [3 / 5, - (4 / 5)], [0, 1]), (1 / 2, [0, 0, 1], [0, 0, 1])])
    = Inr [[1], [3 / 5, - (4 / 5)], [0, 0, 1]]"
    and v0: "gen_pp ?ext 10 [0, 1 / 2, 1] (map (\<lambda>t. snd (snd t))
      [(1, [1], [1]), (3 / 4, [3 / 5, - (4 / 5)], [0, 1]), (1 / 2, [0, 0, 1], [0, 0, 1])])
    = Inr [[1], [0, 1], [0, 0, 1]]"
    by (simp_all add: gen_pp_def sample_fields upt_rec)
  note r = endpoint_sign_convention [OF sample_impl_3 p u0 v0 neg]
  from r have "\<forall>l<length [1, 3 / 4, 1 / 2 :: real].
      0 \<le> compute_value ?ext ([[1], [- (3 / 5), 4 / 5], [0, 0, 1]] ! l) 1"
    by blast
  then have "0 \<le> compute_value ?ext ([[1], [- (3 / 5), 4 / 5], [0, 0, 1]] ! 1) 1"
    by (rule allE [of _ 1]) simp
  then show ?thesis using sample_impl_3 by (simp add: sample_fields poly_value_def)
qed

section \<open>Validation in the facade\<close>

text \<open>
  C7, as the code has it. In a build with \<^verbatim>\<open>NDEBUG\<close> (assertions compiled out), for
  every basis: \<open>ulx\<close> and \<open>vly\<close> with an index outside \<open>[0, dim)\<close>, such as \<open>l = dim\<close>
  or \<open>l = -1\<close>, throw the runtime error of an index out of range, whatever the
  argument; with an index in range and an argument outside \<open>[-1,1]\<close>, such as \<open>1.5\<close> or
  \<open>-1.5\<close>, they throw the runtime error of an invalid argument. In a build without
  \<^verbatim>\<open>NDEBUG\<close> the same calls end at the failed \<^verbatim>\<open>assert\<close> at the head of the
  function, and nothing is thrown. In both builds no polynomial is evaluated: the
  outcome is the same whatever \<open>compute_value\<close> is.
\<close>

theorem facade_validation:
  "(ndebug ext \<longrightarrow>
      (l < 0 \<or> dim b \<le> l \<longrightarrow>
         (\<exists>e. ulx ext b l x = Inl e \<and> is_RangeError e)
         \<and> (\<exists>e. vly ext b l x = Inl e \<and> is_RangeError e))
      \<and> (0 \<le> l \<and> l < dim b \<and> (x < - 1 \<or> 1 < x) \<longrightarrow>
         (\<exists>e. ulx ext b l x = Inl e \<and> is_DomainError e)
         \<and> (\<exists>e. vly ext b l x = Inl e \<and> is_DomainError e)))
   \<and> (\<not> ndebug ext \<longrightarrow>
      (l < 0 \<or> dim b \<le> l \<or> x < - 1 \<or> 1 < x \<longrightarrow>
         ulx ext b l x = Inl assertion_failed \<and> vly ext b l x = Inl assertion_failed))
   \<and> (l < 0 \<or> dim b \<le> l \<or> x < - 1 \<or> 1 < x \<longrightarrow>
         ulx (ext\<lparr>compute_value := f\<rparr>) b l x = ulx ext b l x
         \<and> vly (ext\<lparr>compute_value := f\<rparr>) b l x = vly ext b l x)"
  by (auto simp: ulx_def vly_def is_RangeError_def is_DomainError_def)

theorem facade_validation_witness:
  "ulx (sample_externals True False sample_even sample_odd) sample_basis (dim sample_basis) 0
     = Inl (runtime_error ''Invalid index of basis function!'')
   \<and> vly (sample_externals True True sample_even sample_odd) sample_basis (- 1) 0
     = Inl (runtime_error ''Index l is out of range.'')
   \<and> ulx (sample_externals True False sample_even sample_odd) sample_basis 0 (3 / 2)
     = Inl (runtime_error ''Invalid value of x!'')
   \<and> vly (sample_externals True False sample_even sample_odd) sample_basis 0 (- (3 / 2))
     = Inl (runtime_error ''Invalid value of y!'')
   \<and> is_RangeError (runtime_error ''Invalid index of basis function!'')
   \<and> is_DomainError (runtime_error ''Invalid value of x!'')"
  using facade_validation [of "sample_externals True False sample_even sample_odd"
      "dim sample_basis" sample_basis 0]
    facade_validation [of "sample_externals True False sample_even sample_odd"
      0 sample_basis "3 / 2"]
  by (simp add: sample_facade is_RangeError_def is_DomainError_def)

text \<open>
  With assertions enabled the call with \<open>l = dim\<close>, and the call with \<open>x = 3/2\<close>, end at
  a failed assertion, which is neither of the two error kinds.
\<close>

theorem facade_assertion_counterexample:
  "ulx (sample_externals False False sample_even sample_odd) sample_basis (dim sample_basis) 0
     = Inl assertion_failed
   \<and> \<not> is_RangeError assertion_failed
   \<and> ulx (sample_externals False False sample_even sample_odd) sample_basis 0 (3 / 2)
     = Inl assertion_failed
   \<and> \<not> is_DomainError assertion_failed"
  by (simp add: sample_facade is_RangeError_def is_DomainError_def)

section \<open>Failures of the construction\<close>

text \<open>
  C8, as the code has it. The check of the order reads \<open>sv\<close>, the retained singular
  values as stored, that is after their conversion to \<^verbatim>\<open>double\<close>. It throws exactly
  when this stored sequence is not non-increasing (some \<open>sv_l < sv_{l+1}\<close>), and then
  the construction fails: no basis is produced, and
  \<^verbatim>\<open>generate_ir_basis_functions_impl\<close> and the constructor end with the
  \<^verbatim>\<open>std::runtime_error\<close> of the fixed message \<open>not_decreasing_message\<close>. The message
  names neither the sector nor the index of the violation.
\<close>

theorem not_decreasing_is_fatal:
  fixes ext :: "('vec, 'pp) externals"
  assumes nodes: "compute_approximate_nodes_even_sector ext (kernel_eval knl) 250 (1 / 10 ^ 12)
             = (nodes_x, nodes_y)"
    and picked: "pick_singular_triples (ndebug ext) max_dim cutoff
             (svd_even ext knl Nl 12 (gen_section_edges nodes_x) (gen_section_edges nodes_y))
             (svd_odd ext knl Nl 12 (gen_section_edges nodes_x) (gen_section_edges nodes_y))
           = Inr picked"
    and sv: "sv = map (\<lambda>t. to_double ext (fst t)) picked"
  shows "(check_decreasing sv 0 = Inl (runtime_error not_decreasing_message)
            \<longleftrightarrow> (\<exists>l. Suc l < length sv \<and> sv ! l < sv ! Suc l))
       \<and> ((\<exists>l. Suc l < length sv \<and> sv ! l < sv ! Suc l) \<longrightarrow>
            generate_ir_basis_functions_impl ext knl max_dim cutoff Nl 12
              (gen_section_edges nodes_x) (gen_section_edges nodes_y)
              = Inl (runtime_error not_decreasing_message)
          \<and> ir_basis_set_ctor ext knl max_dim cutoff Nl
              = Inl (runtime_error not_decreasing_message))"
proof -
  have le: "length sv \<le> to_size_t max_dim"
    using pick_singular_triples_length [OF picked] sv by simp
  then have small: "length sv < 2 ^ 64"
    using to_size_t_less [of max_dim] by simp
  note iff = check_decreasing_iff [OF small]
  have "generate_ir_basis_functions_impl ext knl max_dim cutoff Nl 12
           (gen_section_edges nodes_x) (gen_section_edges nodes_y)
           = Inl (runtime_error not_decreasing_message)
       \<and> ir_basis_set_ctor ext knl max_dim cutoff Nl = Inl (runtime_error not_decreasing_message)"
    if "\<exists>l. Suc l < length sv \<and> sv ! l < sv ! Suc l"
  proof -
    have "check_decreasing sv 0 = Inl (runtime_error not_decreasing_message)"
      using that iff by simp
    then have "generate_ir_basis_functions_impl ext knl max_dim cutoff Nl 12
           (gen_section_edges nodes_x) (gen_section_edges nodes_y)
           = Inl (runtime_error not_decreasing_message)"
      using picked le sv by (simp add: generate_ir_basis_functions_impl_def)
    then show ?thesis using ctor_impl_failure [OF nodes] by simp
  qed
  then show ?thesis using iff by blast
qed

text \<open>
  On the sample inputs, with the conversion that rounds to ten binary digits. The
  merged sequence \<open>1, 2, 1/2, 1/4\<close> is stored as it is and the construction ends with
  the error. The merged sequence \<open>1, 1/2, 1/2 + 2^-20, 1/4\<close> is not non-increasing, but
  it is stored as \<open>1, 1/2, 1/2, 1/4\<close>: the check passes.
\<close>

theorem not_decreasing_is_fatal_witness:
  "ir_basis_set_ctor
     (sample_externals True False (sample_triples [1, 1 / 2]) (sample_triples [2, 1 / 4]))
     sample_kernel 10 (1 / 10) 10 = Inl (runtime_error not_decreasing_message)
   \<and> check_decreasing (map round_to_grid [1, 1 / 2, 1 / 2 + 1 / 2 ^ 20, 1 / 4]) 0
       \<noteq> Inl (runtime_error not_decreasing_message)
   \<and> ir_basis_set_ctor
       (sample_externals True False (sample_triples [1, 1 / 2 + 1 / 2 ^ 20])
          (sample_triples [1 / 2, 1 / 4]))
       sample_kernel 10 (1 / 10) 10
     = Inr \<lparr>m_statistics = FERMIONIC, m_sv = [1, 1 / 2, 1 / 2, 1 / 4],
            m_u_basis = [[1], [1], [1], [1]], m_v_basis = [[1], [1], [1], [1]]\<rparr>"
proof -
  let ?ext = "sample_externals True False (sample_triples [1, 1 / 2]) (sample_triples [2, 1 / 4])"
  let ?picked = "[(1, [1], [1]), (2, [1], [1]), (1 / 2, [1], [1]), (1 / 4, [1], [1])]
    :: (real \<times> real list \<times> real list) list"
  let ?sv = "[1, 2, 1 / 2, 1 / 4] :: real list"
  have p: "pick_singular_triples (ndebug ?ext) 10 (1 / 10)
      (svd_even ?ext sample_kernel 10 12 (gen_section_edges [1 / 2]) (gen_section_edges [1 / 2]))
      (svd_odd ?ext sample_kernel 10 12 (gen_section_edges [1 / 2]) (gen_section_edges [1 / 2]))
    = Inr ?picked"
    by (simp add: sample_eval sample_triples_def)
  have sv: "?sv = map (\<lambda>t. to_double ?ext (fst t)) ?picked"
    by (simp add: sample_fields round_to_grid_values)
  have v: "\<exists>l. Suc l < length ?sv \<and> ?sv ! l < ?sv ! Suc l"
    by (rule exI [of _ 0]) simp
  let ?hid = "sample_externals True False (sample_triples [1, 1 / 2 + 1 / 2 ^ 20])
    (sample_triples [1 / 2, 1 / 4])"
  let ?hpicked = "[(1, [1], [1]), (1 / 2, [1], [1]), (1 / 2 + 1 / 2 ^ 20, [1], [1]),
    (1 / 4, [1], [1])] :: (real \<times> real list \<times> real list) list"
  let ?hsv = "map round_to_grid [1, 1 / 2, 1 / 2 + 1 / 2 ^ 20, 1 / 4]"
  have hp: "pick_singular_triples (ndebug ?hid) 10 (1 / 10)
      (svd_even ?hid sample_kernel 10 12 (gen_section_edges [1 / 2]) (gen_section_edges [1 / 2]))
      (svd_odd ?hid sample_kernel 10 12 (gen_section_edges [1 / 2]) (gen_section_edges [1 / 2]))
    = Inr ?hpicked"
    by (simp add: sample_eval sample_triples_def)
  have hsv: "?hsv = map (\<lambda>t. to_double ?hid (fst t)) ?hpicked"
    by (simp add: sample_fields)
  have hv: "\<not> (\<exists>l. Suc l < length ?hsv \<and> ?hsv ! l < ?hsv ! Suc l)"
  proof -
    have eq: "?hsv = [1, 1 / 2, 1 / 2, 1 / 4]" by (simp add: round_to_grid_def)
    have "\<not> [1, 1 / 2, 1 / 2, 1 / 4 :: real] ! l < [1, 1 / 2, 1 / 2, 1 / 4] ! Suc l"
      if "Suc l < 4" for l
    proof -
      from that have "l = 0 \<or> l = 1 \<or> l = 2" by arith
      then show ?thesis by auto
    qed
    then show ?thesis unfolding eq by auto
  qed
  from not_decreasing_is_fatal [OF sample_nodes p sv] v
  have a: "ir_basis_set_ctor ?ext sample_kernel 10 (1 / 10) 10
      = Inl (runtime_error not_decreasing_message)"
    by blast
  from not_decreasing_is_fatal [OF sample_nodes hp hsv] hv
  have b: "check_decreasing ?hsv 0 \<noteq> Inl (runtime_error not_decreasing_message)"
    by blast
  from a b sample_hidden [of True False] show ?thesis by simp
qed

text \<open>
  Two runs whose first violations differ, one between the merged indices 0 and 1 (the
  odd sector's entry 0), one between 1 and 2 (the even sector's entry 1), end with the
  same error value: the error identifies neither.
\<close>

theorem error_without_context_counterexample:
  "ir_basis_set_ctor
     (sample_externals True False (sample_triples [1, 1 / 2]) (sample_triples [2, 1 / 4]))
     sample_kernel 10 (1 / 10) 10 = Inl (runtime_error not_decreasing_message)
   \<and> ir_basis_set_ctor
     (sample_externals True False (sample_triples [1, 1]) (sample_triples [1 / 2, 1 / 4]))
     sample_kernel 10 (1 / 10) 10 = Inl (runtime_error not_decreasing_message)
   \<and> map fst (interleave (sample_triples [1, 1 / 2]) (sample_triples [2, 1 / 4]))
       = [1, 2, 1 / 2, 1 / 4]
   \<and> map fst (interleave (sample_triples [1, 1]) (sample_triples [1 / 2, 1 / 4]))
       = [1, 1 / 2, 1, 1 / 4]"
  by (simp add: sample_unstable) (simp add: sample_triples_def)




text \<open>
  C10. When the truncation loop emits no triple (for \<open>max_dim = 0\<close>, or for a cutoff
  above 1, which rejects the leading even singular value itself), the bound
  \<^verbatim>\<open>sv.size()-1\<close> of the order check wraps around to \<open>2^64 - 1\<close>, so the loop body runs
  and reads the empty vector \<open>sv\<close> out of range instead of ending at once.
\<close>

theorem empty_selection_reads_out_of_range:
  fixes ext :: "('vec, 'pp) externals"
  assumes E: "E = svd_even ext knl Nl n ex ey" and Od: "Od = svd_odd ext knl Nl n ex ey"
    and ne: "E \<noteq> []"
    and empty: "max_dim = 0 \<or> (1 < cutoff \<and> fst (hd E) \<noteq> 0)
                \<or> pick_singular_triples (ndebug ext) max_dim cutoff E Od = Inr []"
  shows "pick_singular_triples (ndebug ext) max_dim cutoff E Od = Inr []
       \<and> check_bound [] = 2 ^ 64 - 1
       \<and> check_decreasing [] 0 = Inl out_of_range
       \<and> generate_ir_basis_functions_impl ext knl max_dim cutoff Nl n ex ey = Inl out_of_range"
proof -
  have p: "pick_singular_triples (ndebug ext) max_dim cutoff E Od = Inr []"
    using empty pick_nothing [OF ne, where max_dim = max_dim and cutoff = cutoff and Od = Od
        and nd = "ndebug ext"] by blast
  then have "generate_ir_basis_functions_impl ext knl max_dim cutoff Nl n ex ey = Inl out_of_range"
    unfolding E Od by (rule impl_pick_nothing)
  with p show ?thesis by (simp add: check_bound_empty check_decreasing_empty)
qed

theorem empty_selection_reads_out_of_range_witness:
  "generate_ir_basis_functions_impl (sample_externals True False sample_even sample_odd)
     sample_kernel 0 (3 / 10) 10 12 [0, 1 / 2, 1] [0, 1 / 2, 1] = Inl out_of_range
   \<and> generate_ir_basis_functions_impl (sample_externals True False sample_even sample_odd)
     sample_kernel 10 2 10 12 [0, 1 / 2, 1] [0, 1 / 2, 1] = Inl out_of_range
   \<and> pick_singular_triples True 10 2 sample_even sample_odd = Inr []
   \<and> check_decreasing [] 0 = Inl out_of_range"
proof -
  let ?ext = "sample_externals True False sample_even sample_odd"
  have E: "sample_even = svd_even ?ext sample_kernel 10 12 [0, 1 / 2, 1] [0, 1 / 2, 1]"
    and Od: "sample_odd = svd_odd ?ext sample_kernel 10 12 [0, 1 / 2, 1] [0, 1 / 2, 1]"
    by (simp_all add: sample_svd)
  have ne: "sample_even \<noteq> []" by (simp add: sample_even_def)
  have c1: "(0 :: int) = 0 \<or> (1 < (3 / 10 :: real) \<and> fst (hd sample_even) \<noteq> 0)
      \<or> pick_singular_triples (ndebug ?ext) 0 (3 / 10) sample_even sample_odd = Inr []"
    by simp
  have c2: "(10 :: int) = 0 \<or> (1 < (2 :: real) \<and> fst (hd sample_even) \<noteq> 0)
      \<or> pick_singular_triples (ndebug ?ext) 10 2 sample_even sample_odd = Inr []"
    by (simp add: sample_even_def)
  show ?thesis
    using empty_selection_reads_out_of_range [OF E Od ne c1]
      empty_selection_reads_out_of_range [OF E Od ne c2]
    by (simp add: sample_fields)
qed

end
